theory Spec2Isabelle
  imports Complex_Main
begin

section \<open>Values\<close>

text \<open>
  The coupling functions of \<open>couplingMUIFn.py\<close> work on numpy arrays of 64-bit floats.
  Finite floats are idealised as real numbers: rounding and overflow are outside the
  model. A point or a force is an array of three components.
\<close>

type_synonym vec3 = "real \<times> real \<times> real"

text \<open>A 3-by-3 matrix, as its three rows.\<close>

type_synonym mat3 = "vec3 \<times> vec3 \<times> vec3"

definition vadd :: "vec3 \<Rightarrow> vec3 \<Rightarrow> vec3" where
  "vadd u v = (case u of (a, b, c) \<Rightarrow> case v of (x, y, z) \<Rightarrow> (a + x, b + y, c + z))"

definition vsub :: "vec3 \<Rightarrow> vec3 \<Rightarrow> vec3" where
  "vsub u v = (case u of (a, b, c) \<Rightarrow> case v of (x, y, z) \<Rightarrow> (a - x, b - y, c - z))"

definition vscale :: "real \<Rightarrow> vec3 \<Rightarrow> vec3" where
  "vscale k v = (case v of (x, y, z) \<Rightarrow> (k * x, k * y, k * z))"

definition dot :: "vec3 \<Rightarrow> vec3 \<Rightarrow> real" where
  "dot u v = (case u of (a, b, c) \<Rightarrow> case v of (x, y, z) \<Rightarrow> a * x + b * y + c * z)"

definition norm2 :: "vec3 \<Rightarrow> real" where
  "norm2 v = dot v v"

definition vsum :: "vec3 list \<Rightarrow> vec3" where
  "vsum vs = foldr vadd vs (0, 0, 0)"

definition mat_vec :: "mat3 \<Rightarrow> vec3 \<Rightarrow> vec3" where
  "mat_vec A v = (case A of (r1, r2, r3) \<Rightarrow> (dot r1 v, dot r2 v, dot r3 v))"

definition mat_transpose :: "mat3 \<Rightarrow> mat3" where
  "mat_transpose A =
     (case A of ((a, b, c), (d, e, f), (g, h, i)) \<Rightarrow> ((a, d, g), (b, e, h), (c, f, i)))"

definition mat_mul :: "mat3 \<Rightarrow> mat3 \<Rightarrow> mat3" where
  "mat_mul A B =
     (case mat_transpose B of (c1, c2, c3) \<Rightarrow>
        case A of (r1, r2, r3) \<Rightarrow>
          ((dot r1 c1, dot r1 c2, dot r1 c3),
           (dot r2 c1, dot r2 c2, dot r2 c3),
           (dot r3 c1, dot r3 c2, dot r3 c3)))"

definition mat_id :: mat3 where
  "mat_id = ((1, 0, 0), (0, 1, 0), (0, 0, 1))"

definition det :: "mat3 \<Rightarrow> real" where
  "det A =
     (case A of ((a, b, c), (d, e, f), (g, h, i)) \<Rightarrow>
        a * (e * i - f * h) - b * (d * i - f * g) + c * (d * h - e * g))"

text \<open>
  An entry of the applied-load array. numpy divides a float by zero without raising:
  the quotient is an infinity or a NaN (with a RuntimeWarning). \<open>NonFin\<close> stands for
  any of these non-finite values; every operation below that meets one stays
  non-finite, as it does in IEEE arithmetic when the other operand is finite.
\<close>

datatype npfloat = Fin real | NonFin

fun fadd :: "npfloat \<Rightarrow> npfloat \<Rightarrow> npfloat" where
  "fadd (Fin a) (Fin b) = Fin (a + b)"
| "fadd _ _ = NonFin"

fun fsub :: "npfloat \<Rightarrow> npfloat \<Rightarrow> npfloat" where
  "fsub (Fin a) (Fin b) = Fin (a - b)"
| "fsub _ _ = NonFin"

text \<open>Product with a finite factor (the under-relaxation factor).\<close>

fun fmul :: "npfloat \<Rightarrow> real \<Rightarrow> npfloat" where
  "fmul (Fin a) r = Fin (a * r)"
| "fmul NonFin r = NonFin"

text \<open>Quotient by a finite divisor (an area weight): a zero divisor gives a non-finite value.\<close>

fun fdiv :: "npfloat \<Rightarrow> real \<Rightarrow> npfloat" where
  "fdiv (Fin a) d = (if d = 0 then NonFin else Fin (a / d))"
| "fdiv NonFin d = NonFin"

text \<open>
  A coordinate of a mesh point as the setup reads it from \<open>dofs_to_xyz\<close> and
  \<open>xyz_fetch\<close>: a number or NaN. Python's \<open><\<close>, \<open>>\<close> and \<open>==\<close> are false whenever an
  operand is NaN. (An infinite coordinate is ordered like a number beyond
  \<open>sys.float_info.max\<close> and is not told apart from one.) Only the setup compares
  coordinates; the fetch and the push hand the points on to the interface as they are,
  and take them as triples of numbers.
\<close>

datatype coord = Num real | NaN

type_synonym point = "coord \<times> coord \<times> coord"




section \<open>Errors and outcomes\<close>

text \<open>
  An exception leaves the method at once; what the method had already done to the
  object stays done. \<open>Raised e s\<close> is an exception \<open>e\<close> raised in state \<open>s\<close>.
\<close>

datatype error = IndexError | ValueError

datatype 's outcome = Done 's | Raised error 's

fun state_of :: "'s outcome \<Rightarrow> 's" where
  "state_of (Done s) = s"
| "state_of (Raised e s) = s"

text \<open>Statements in sequence: the first exception ends the run.\<close>

fun seq :: "('s \<Rightarrow> 's outcome) list \<Rightarrow> 's \<Rightarrow> 's outcome" where
  "seq [] s = Done s"
| "seq (f # fs) s = (case f s of Done s' \<Rightarrow> seq fs s' | Raised e s' \<Rightarrow> Raised e s')"

text \<open>\<open>for i, p in enumerate(xs)\<close>: the body once per element, with its position.\<close>

definition for_enumerate :: "(nat \<Rightarrow> 'a \<Rightarrow> 's \<Rightarrow> 's outcome) \<Rightarrow> 'a list \<Rightarrow> 's \<Rightarrow> 's outcome" where
  "for_enumerate body xs = seq (map (\<lambda>(i, p). body i p) (enumerate 0 xs))"

text \<open>
  \<open>arr[c::3][p]\<close>: entry \<open>p\<close> of the strided view that starts at \<open>c\<close>, that is entry
  \<open>3 * p + c\<close> of \<open>arr\<close>; IndexError when the view is shorter. DOF indices are natural
  numbers here, so numpy's wrap-around of negative indices does not arise.
\<close>

definition strided :: "'a list \<Rightarrow> nat \<Rightarrow> nat \<Rightarrow> 'a option" where
  "strided arr c p = (if 3 * p + c < length arr then Some (arr ! (3 * p + c)) else None)"

definition index :: "'a list \<Rightarrow> nat \<Rightarrow> 'a option" where
  "index xs i = (if i < length xs then Some (xs ! i) else None)"

section \<open>The coupling interface and the solver object\<close>

text \<open>
  The calls made on \<open>self.ifaces3d["threeDInterface0"]\<close>, in the order they are made.
  A span is the pair of the box's minimum and maximum corners.
\<close>

datatype call =
    AnnounceSendSpan int int "vec3 \<times> vec3" bool
  | AnnounceRecvSpan int int "vec3 \<times> vec3" bool
  | Commit int
  | Forget int
  | SetMemory int
  | Push string vec3 real
  | PushMany string "vec3 list" "real list"
  | Fetch string vec3 int
  | FetchMany string "vec3 list" int

fun is_commit :: "call \<Rightarrow> bool" where
  "is_commit (Commit n) = True"
| "is_commit _ = False"

fun is_push :: "call \<Rightarrow> bool" where
  "is_push (Push f p v) = True"
| "is_push (PushMany f ps vs) = True"
| "is_push _ = False"



text \<open>The \<open>{** FENICS ERROR **}\<close> lines the setup prints; other prints are not modelled.\<close>

datatype axis = AxisX | AxisY | AxisZ

datatype warning =
    SendDegenerate axis
  | RecvDegenerate axis
  | PointNotFound point

datatype sampler = SamplerRbf | SamplerExact | SamplerPseudoNearestNeighbor

text \<open>
  The configuration methods of the solver class (\<open>self.iMUIPushMode()\<close> and so on) are
  defined outside \<open>couplingMUIFn.py\<close>; each is a field here, under the method's name.
  The three methods \<open>pointSDOFaX\<close>, \<open>pointSDOFaY\<close> and \<open>pointSDOFaZ\<close> are the one
  point \<open>pointSDOFa\<close>, and likewise for the points b, c and d.
\<close>

record config =
  iMUICoupling :: bool
  iparallelFSICoupling :: bool
  undRelxCpl :: real
  iMUIFetchMode :: int
  iMUIFetchMany :: bool
  iMUIPushMode :: int
  iMUIPushMany :: bool
  iPushX :: bool
  iPushY :: bool
  iPushZ :: bool
  forgetTStepsMUI :: int
  num_sub_iteration :: int
  pointSDOFa :: vec3
  pointSDOFb :: vec3
  pointSDOFc :: vec3
  pointSDOFd :: vec3

text \<open>
  The object \<open>self\<close>. numpy arrays are mutable objects that several names can refer
  to: \<open>arrays\<close> maps a reference to the array's contents, and \<open>tF_apply_vec\<close> holds the
  reference of the applied-load array. \<open>calls\<close> is the log of the interface, oldest
  call first.
\<close>

type_synonym ref = nat

record solver =
  arrays :: "ref \<Rightarrow> npfloat list"
  tF_apply_vec :: ref
  areaf_vec :: "real list"
  s_sampler :: "sampler option"
  calls :: "call list"
  printed :: "warning list"

definition iface :: "call \<Rightarrow> solver \<Rightarrow> solver outcome" where
  "iface c s = Done (s\<lparr>calls := calls s @ [c]\<rparr>)"


text \<open>The calls made between state \<open>s\<close> and a later state \<open>s'\<close>.\<close>

definition issued :: "solver \<Rightarrow> solver \<Rightarrow> call list" where
  "issued s s' = drop (length (calls s)) (calls s')"

section \<open>Commit, push and window trimming\<close>

text \<open>
  Lines 687-693 of \<open>MUI_Push\<close> and 702-708 of \<open>MUI_Commit_only\<close> are the same statements:
  \<^verbatim>\<open>
  if (((total_Sub_Iteration-self.forgetTStepsMUI()) > 0) and (self.forgetTStepsMUI() != 0)):
      forget(total_Sub_Iteration-self.forgetTStepsMUI())
      set_memory(self.forgetTStepsMUI())
  \<close>
\<close>

definition forget_old :: "config \<Rightarrow> int \<Rightarrow> solver \<Rightarrow> solver outcome" where
  "forget_old cfg total_Sub_Iteration =
     (if total_Sub_Iteration - forgetTStepsMUI cfg > 0 \<and> forgetTStepsMUI cfg \<noteq> 0
      then seq [iface (Forget (total_Sub_Iteration - forgetTStepsMUI cfg)),
                iface (SetMemory (forgetTStepsMUI cfg))]
      else seq [])"


text \<open>
  The displacement function: \<open>get_local\<close> is \<open>displacement_function.vector().get_local()\<close>,
  the interleaved x, y, z components of every DOF. \<open>point_disp\<close> is a method of the
  solver class defined outside \<open>couplingMUIFn.py\<close>; the displacement it reads at a
  point is the field of that name.
\<close>

record displacement =
  get_local :: "real list"
  point_disp :: "vec3 \<Rightarrow> vec3"

text \<open>
  scipy's \<open>Rotation.align_vectors\<close> and \<open>Rotation.as_euler\<close> are library functions; the
  push takes them as parameters.
\<close>

record scipy =
  align_vectors :: "vec3 list \<Rightarrow> vec3 list \<Rightarrow> mat3"
  as_euler :: "mat3 \<Rightarrow> vec3"

text \<open>\<open>push_many(field, dofs_to_xyz, d_vec[dofs_push])\<close>: the fancy index raises on
  any entry out of range, before the call is made.\<close>

definition push_many :: "string \<Rightarrow> nat \<Rightarrow> vec3 list \<Rightarrow> nat list \<Rightarrow> real list \<Rightarrow> solver \<Rightarrow> solver outcome" where
  "push_many field c dofs_to_xyz dofs_push d_vec s =
     (if \<forall>p \<in> set dofs_push. 3 * p + c < length d_vec
      then iface (PushMany field dofs_to_xyz (map (\<lambda>p. d_vec ! (3 * p + c)) dofs_push)) s
      else Raised IndexError s)"

text \<open>\<open>push(field, dofs_to_xyz[i], d_vec[p])\<close>\<close>

definition push_one :: "string \<Rightarrow> nat \<Rightarrow> vec3 list \<Rightarrow> real list \<Rightarrow> nat \<Rightarrow> nat \<Rightarrow> solver \<Rightarrow> solver outcome" where
  "push_one field c dofs_to_xyz d_vec i p s =
     (case index dofs_to_xyz i of
        None \<Rightarrow> Raised IndexError s
      | Some xyz \<Rightarrow>
          (case strided d_vec c p of
             None \<Rightarrow> Raised IndexError s
           | Some d \<Rightarrow> iface (Push field xyz d) s))"

definition run_if :: "bool \<Rightarrow> ('s \<Rightarrow> 's outcome) \<Rightarrow> 's \<Rightarrow> 's outcome" where
  "run_if b f = (if b then f else seq [])"

definition origin :: vec3 where
  "origin = (0, 0, 0)"

definition init_array :: "config \<Rightarrow> vec3 list" where
  "init_array cfg = [pointSDOFa cfg, pointSDOFb cfg, pointSDOFc cfg, pointSDOFd cfg]"

definition disp_array :: "config \<Rightarrow> displacement \<Rightarrow> vec3 list" where
  "disp_array cfg displacement_function = map (point_disp displacement_function) (init_array cfg)"

definition corners_new :: "config \<Rightarrow> displacement \<Rightarrow> vec3 list" where
  "corners_new cfg displacement_function =
     map2 vadd (disp_array cfg displacement_function) (init_array cfg)"

text \<open>\<open>np.mean(disp_array, axis=0)\<close> of the four displacements.\<close>

definition Trans :: "config \<Rightarrow> displacement \<Rightarrow> vec3" where
  "Trans cfg displacement_function = vscale (1 / 4) (vsum (disp_array cfg displacement_function))"

definition euler_angles :: "scipy \<Rightarrow> config \<Rightarrow> displacement \<Rightarrow> vec3" where
  "euler_angles lib cfg displacement_function =
     (let transformation =
            align_vectors lib (init_array cfg) (corners_new cfg displacement_function);
          rotation = mat_mul transformation mat_id
      in as_euler lib rotation)"

text \<open>The branch \<open>self.iMUIPushMode() == 0\<close> of \<open>MUI_Push\<close> (lines 601-634).\<close>

definition push_per_dof ::
  "config \<Rightarrow> vec3 list \<Rightarrow> nat list \<Rightarrow> displacement \<Rightarrow> int \<Rightarrow> solver \<Rightarrow> solver outcome" where
  "push_per_dof cfg dofs_to_xyz dofs_push displacement_function total_Sub_Iteration =
     (let d_vec = get_local displacement_function in
      if iMUIPushMany cfg then
        seq [run_if (iPushX cfg) (push_many ''dispX'' 0 dofs_to_xyz dofs_push d_vec),
             run_if (iPushY cfg) (push_many ''dispY'' 1 dofs_to_xyz dofs_push d_vec),
             run_if (iPushZ cfg) (push_many ''dispZ'' 2 dofs_to_xyz dofs_push d_vec),
             iface (Commit total_Sub_Iteration)]
      else
        seq [run_if (iPushX cfg) (for_enumerate (push_one ''dispX'' 0 dofs_to_xyz d_vec) dofs_push),
             run_if (iPushY cfg) (for_enumerate (push_one ''dispY'' 1 dofs_to_xyz d_vec) dofs_push),
             run_if (iPushZ cfg) (for_enumerate (push_one ''dispZ'' 2 dofs_to_xyz d_vec) dofs_push),
             iface (Commit total_Sub_Iteration)])"

text \<open>The branch \<open>self.iMUIPushMode() == 1\<close> of \<open>MUI_Push\<close> (lines 638-682).\<close>

definition push_rigid_body ::
  "config \<Rightarrow> scipy \<Rightarrow> displacement \<Rightarrow> int \<Rightarrow> solver \<Rightarrow> solver outcome" where
  "push_rigid_body cfg lib displacement_function total_Sub_Iteration =
     (case Trans cfg displacement_function of (surge, sway, heave) \<Rightarrow>
      case euler_angles lib cfg displacement_function of (ex, ey, ez) \<Rightarrow>
        seq [iface (Push ''dispX'' origin surge),
             iface (Push ''dispY'' origin sway),
             iface (Push ''dispZ'' origin heave),
             iface (Push ''angleX'' origin (- ex)),
             iface (Push ''angleY'' origin (- ey)),
             iface (Push ''angleZ'' origin (- ez)),
             iface (Commit total_Sub_Iteration)])"

text \<open>
  \<open>MUI_Push\<close>: \<open>if\<close> mode 0, \<open>elif\<close> mode 1, and no \<open>else\<close>; then the window trimming,
  which is outside the \<open>if\<close>.
\<close>

definition MUI_Push ::
  "config \<Rightarrow> scipy \<Rightarrow> vec3 list \<Rightarrow> nat list \<Rightarrow> displacement \<Rightarrow> int \<Rightarrow> solver \<Rightarrow> solver outcome" where
  "MUI_Push cfg lib dofs_to_xyz dofs_push displacement_function total_Sub_Iteration =
     seq [(if iMUIPushMode cfg = 0 then
             push_per_dof cfg dofs_to_xyz dofs_push displacement_function total_Sub_Iteration
           else if iMUIPushMode cfg = 1 then
             push_rigid_body cfg lib displacement_function total_Sub_Iteration
           else seq []),
          forget_old cfg total_Sub_Iteration]"

section \<open>Load redistribution\<close>

definition smallVal :: real where
  "smallVal = 1 / 10 ^ 32"

text \<open>
  \<open>np.linalg.lstsq\<close> is a library function and a parameter of \<open>getCofR\<close>. The result
  \<open>L\<close> is a column; \<open>CofR_old + L.T\<close> adds it to the old centre component by component.
  \<open>getCofR_A\<close> and \<open>getCofR_B\<close> are the arrays \<open>A\<close> and \<open>B\<close> of lines 569 and 570.
\<close>

definition getCofR_A :: "vec3 \<Rightarrow> mat3" where
  "getCofR_A F =
     (case F of (F0, F1, F2) \<Rightarrow>
        ((F1, - F0, smallVal), (- F2, smallVal, F0), (smallVal, F2, - F1)))"

definition getCofR_B :: "vec3 \<Rightarrow> vec3" where
  "getCofR_B M = (case M of (M0, M1, M2) \<Rightarrow> (M2, M1, M0))"

definition getCofR :: "(mat3 \<Rightarrow> vec3 \<Rightarrow> vec3) \<Rightarrow> vec3 \<Rightarrow> vec3 \<Rightarrow> vec3 \<Rightarrow> vec3" where
  "getCofR lstsq F M CofR_old =
     (let A = getCofR_A F;
          B = getCofR_B M;
          L = lstsq A B
      in vadd CofR_old L)"

text \<open>
  What numpy documents of \<open>lstsq\<close>: the solution minimises the squared residual, and
  among the minimisers it has the least norm. (With \<open>rcond=None\<close> numpy drops singular
  values below a cutoff before it solves; for a zero right-hand side the solution is
  zero with or without the cutoff.)
\<close>

definition residual2 :: "mat3 \<Rightarrow> vec3 \<Rightarrow> vec3 \<Rightarrow> real" where
  "residual2 A b x = norm2 (vsub (mat_vec A x) b)"

definition least_squares :: "mat3 \<Rightarrow> vec3 \<Rightarrow> vec3 \<Rightarrow> bool" where
  "least_squares A b x \<longleftrightarrow>
     (\<forall>y. residual2 A b x \<le> residual2 A b y) \<and>
     (\<forall>y. residual2 A b y \<le> residual2 A b x \<longrightarrow> norm2 x \<le> norm2 y)"

text \<open>
  \<open>ForceInterp\<close>, as a formula over the real numbers. Every distance is at least
  \<open>smallVal\<close>, so for a non-empty point set the sum of the inverse distances and every
  weight \<open>W[i]\<close> are positive, and the powers \<open>**(-1)\<close> are inverses of non-zero
  numbers. The rounding of float64 and the overflow of \<open>np.power(Loc, 2)\<close> are not
  modelled: the forces are those of the formula, which the code returns up to
  rounding when no square overflows. The fetch below uses the forces only as the
  values it stores.
\<close>

definition ForceInterp :: "vec3 \<Rightarrow> vec3 \<Rightarrow> vec3 list \<Rightarrow> vec3 list" where
  "ForceInterp F_in CofR SpprtLoc =
     (let Loc = map (\<lambda>p. vsub p CofR) SpprtLoc;
          distance = map (\<lambda>l. max (sqrt (norm2 l)) smallVal) Loc;
          W = map (\<lambda>d. sum_list (map inverse distance) * d) distance
      in map (\<lambda>w. vscale (inverse w) F_in) W)"

section \<open>Fetch\<close>

text \<open>
  What the partner solver has committed: the value a fetch of a field at a point and a
  time index returns. \<open>fetch_many\<close> returns one such value per point.
\<close>

type_synonym partner = "string \<Rightarrow> vec3 \<Rightarrow> int \<Rightarrow> real"

definition load :: "ref \<Rightarrow> nat \<Rightarrow> nat \<Rightarrow> solver \<Rightarrow> npfloat option" where
  "load r c p s = strided (arrays s r) c p"

definition store :: "ref \<Rightarrow> nat \<Rightarrow> nat \<Rightarrow> npfloat \<Rightarrow> solver \<Rightarrow> solver outcome" where
  "store r c p v s =
     (if 3 * p + c < length (arrays s r)
      then Done (s\<lparr>arrays := (arrays s)(r := (arrays s r)[3 * p + c := v])\<rparr>)
      else Raised IndexError s)"

text \<open>\<open>self.tF_apply_vec[c::3][p] = v\<close>\<close>

definition set_load :: "nat \<Rightarrow> nat \<Rightarrow> npfloat \<Rightarrow> solver \<Rightarrow> solver outcome" where
  "set_load c p v s = store (tF_apply_vec s) c p v s"

text \<open>
  \<open>arr[c::3][idx] = vals\<close> with a list of indices: numpy broadcasts a value array of
  length one, refuses any other length mismatch (ValueError), then checks every index
  (IndexError) and only then writes, a repeated index keeping the last value.
\<close>

definition store_many :: "ref \<Rightarrow> nat \<Rightarrow> nat list \<Rightarrow> real list \<Rightarrow> solver \<Rightarrow> solver outcome" where
  "store_many r c idx vals s =
     (if length vals \<noteq> length idx \<and> length vals \<noteq> 1 then Raised ValueError s
      else if \<exists>p \<in> set idx. \<not> 3 * p + c < length (arrays s r) then Raised IndexError s
      else Done (s\<lparr>arrays := (arrays s)(r :=
             fold (\<lambda>(p, v) arr. arr[3 * p + c := Fin v])
               (zip idx (if length vals = length idx then vals
                         else replicate (length idx) (hd vals)))
               (arrays s r))\<rparr>))"

text \<open>\<open>temp[c::3][dofs_fetch_list] = fetch_many(field, dofs_to_xyz, fetch_iteration, ...)\<close>\<close>

definition fetch_many_to ::
  "partner \<Rightarrow> ref \<Rightarrow> nat \<Rightarrow> string \<Rightarrow> vec3 list \<Rightarrow> nat list \<Rightarrow> int \<Rightarrow> solver \<Rightarrow> solver outcome" where
  "fetch_many_to data temp c field dofs_to_xyz dofs_fetch_list fetch_iteration =
     seq [iface (FetchMany field dofs_to_xyz fetch_iteration),
          store_many temp c dofs_fetch_list
            (map (\<lambda>xyz. data field xyz fetch_iteration) dofs_to_xyz)]"

text \<open>\<open>temp[c::3][p] = fetch(field, dofs_to_xyz[i], fetch_iteration, ...)\<close>\<close>

definition fetch_to ::
  "partner \<Rightarrow> ref \<Rightarrow> nat \<Rightarrow> string \<Rightarrow> vec3 list \<Rightarrow> int \<Rightarrow> nat \<Rightarrow> nat \<Rightarrow> solver \<Rightarrow> solver outcome" where
  "fetch_to data temp c field dofs_to_xyz fetch_iteration i p s =
     (case index dofs_to_xyz i of
        None \<Rightarrow> Raised IndexError s
      | Some xyz \<Rightarrow>
          seq [iface (Fetch field xyz fetch_iteration),
               store temp c p (Fin (data field xyz fetch_iteration))] s)"

text \<open>
  \<open>self.tF_apply_vec[c::3][p] += (temp[c::3][p] - self.tF_apply_vec[c::3][p]) * self.undRelxCpl()\<close>:
  the old entry and the right-hand side are read, then the sum is written.
\<close>

definition under_relax :: "ref \<Rightarrow> real \<Rightarrow> nat \<Rightarrow> nat \<Rightarrow> solver \<Rightarrow> solver outcome" where
  "under_relax temp r c p s =
     (case load (tF_apply_vec s) c p s of
        None \<Rightarrow> Raised IndexError s
      | Some old \<Rightarrow>
          (case load temp c p s of
             None \<Rightarrow> Raised IndexError s
           | Some new \<Rightarrow> set_load c p (fadd old (fmul (fsub new old) r)) s))"

text \<open>\<open>self.tF_apply_vec[c::3][p] = temp[c::3][p]\<close>\<close>

definition overwrite :: "ref \<Rightarrow> nat \<Rightarrow> nat \<Rightarrow> solver \<Rightarrow> solver outcome" where
  "overwrite temp c p s =
     (case load temp c p s of
        None \<Rightarrow> Raised IndexError s
      | Some new \<Rightarrow> set_load c p new s)"

text \<open>The \<open>if self.iparallelFSICoupling(): ... else: ...\<close> of both per-DOF loops.\<close>

definition blend :: "config \<Rightarrow> ref \<Rightarrow> nat \<Rightarrow> solver \<Rightarrow> solver outcome" where
  "blend cfg temp p =
     (if iparallelFSICoupling cfg
      then seq [under_relax temp (undRelxCpl cfg) 0 p,
                under_relax temp (undRelxCpl cfg) 1 p,
                under_relax temp (undRelxCpl cfg) 2 p]
      else seq [overwrite temp 0 p, overwrite temp 1 p, overwrite temp 2 p])"

text \<open>\<open>self.tF_apply_vec[c::3][p] /= self.areaf_vec[p]\<close>\<close>

definition divide_by_area :: "nat \<Rightarrow> nat \<Rightarrow> solver \<Rightarrow> solver outcome" where
  "divide_by_area c p s =
     (case load (tF_apply_vec s) c p s of
        None \<Rightarrow> Raised IndexError s
      | Some f \<Rightarrow>
          (case index (areaf_vec s) p of
             None \<Rightarrow> Raised IndexError s
           | Some a \<Rightarrow> set_load c p (fdiv f a) s))"

text \<open>
  The division as the resultant mode (lines 458-465) and the batched mode (lines
  511-518) write it, behind the test \<open>self.areaf_vec[p] == 0\<close>.
\<close>

definition traction_guarded :: "nat \<Rightarrow> solver \<Rightarrow> solver outcome" where
  "traction_guarded p s =
     (case index (areaf_vec s) p of
        None \<Rightarrow> Raised IndexError s
      | Some a \<Rightarrow>
          if a = 0
          then seq [set_load 0 p (Fin 0), set_load 1 p (Fin 0), set_load 2 p (Fin 0)] s
          else seq [divide_by_area 0 p, divide_by_area 1 p, divide_by_area 2 p] s)"

text \<open>The division as the one-call-per-point mode writes it (lines 560-562).\<close>

definition traction_unguarded :: "nat \<Rightarrow> solver \<Rightarrow> solver outcome" where
  "traction_unguarded p = seq [divide_by_area 0 p, divide_by_area 1 p, divide_by_area 2 p]"

text \<open>
  The three branches of \<open>MUI_Fetch\<close>. The totals \<open>totForceX/Y/Z\<close> are only printed and
  are left out. First the resultant mode (lines 373-470): nine fetches at the origin,
  the centre of reaction, the redistribution, and the loop over the fetch DOFs.
\<close>

definition resultant_fields :: "string list" where
  "resultant_fields =
     [''CofRX'', ''CofRY'', ''CofRZ'', ''forceX'', ''forceY'', ''forceZ'',
      ''momentX'', ''momentY'', ''momentZ'']"

definition apply_resultant :: "vec3 list \<Rightarrow> nat \<Rightarrow> nat \<Rightarrow> solver \<Rightarrow> solver outcome" where
  "apply_resultant F_out i p s =
     (case index F_out i of
        None \<Rightarrow> Raised IndexError s
      | Some (fx, fy, fz) \<Rightarrow>
          seq [set_load 0 p (Fin fx), set_load 1 p (Fin fy), set_load 2 p (Fin fz),
               traction_guarded p] s)"

definition fetch_resultant ::
  "(mat3 \<Rightarrow> vec3 \<Rightarrow> vec3) \<Rightarrow> partner \<Rightarrow> vec3 list \<Rightarrow> nat list \<Rightarrow> int \<Rightarrow> solver \<Rightarrow> solver outcome" where
  "fetch_resultant lstsq data dofs_to_xyz dofs_fetch_list fetch_iteration =
     (let recv = (\<lambda>field. data field origin fetch_iteration);
          CofR0 = (recv ''CofRX'', recv ''CofRY'', recv ''CofRZ'');
          forceRecv = (recv ''forceX'', recv ''forceY'', recv ''forceZ'');
          momentRecv = (recv ''momentX'', recv ''momentY'', recv ''momentZ'');
          CofR = getCofR lstsq forceRecv momentRecv CofR0;
          F_out = ForceInterp forceRecv CofR dofs_to_xyz
      in seq [seq (map (\<lambda>field. iface (Fetch field origin fetch_iteration)) resultant_fields),
              for_enumerate (apply_resultant F_out) dofs_fetch_list])"

text \<open>The batched per-DOF mode (lines 474-518).\<close>

definition fetch_per_dof_many ::
  "config \<Rightarrow> partner \<Rightarrow> ref \<Rightarrow> vec3 list \<Rightarrow> nat list \<Rightarrow> int \<Rightarrow> solver \<Rightarrow> solver outcome" where
  "fetch_per_dof_many cfg data temp dofs_to_xyz dofs_fetch_list fetch_iteration =
     seq [fetch_many_to data temp 0 ''forceX'' dofs_to_xyz dofs_fetch_list fetch_iteration,
          fetch_many_to data temp 1 ''forceY'' dofs_to_xyz dofs_fetch_list fetch_iteration,
          fetch_many_to data temp 2 ''forceZ'' dofs_to_xyz dofs_fetch_list fetch_iteration,
          for_enumerate (\<lambda>i p. seq [blend cfg temp p, traction_guarded p]) dofs_fetch_list]"

text \<open>The one-call-per-point mode (lines 521-562).\<close>

definition fetch_per_dof_single ::
  "config \<Rightarrow> partner \<Rightarrow> ref \<Rightarrow> vec3 list \<Rightarrow> nat list \<Rightarrow> int \<Rightarrow> solver \<Rightarrow> solver outcome" where
  "fetch_per_dof_single cfg data temp dofs_to_xyz dofs_fetch_list fetch_iteration =
     for_enumerate
       (\<lambda>i p. seq [fetch_to data temp 0 ''forceX'' dofs_to_xyz fetch_iteration i p,
                   fetch_to data temp 1 ''forceY'' dofs_to_xyz fetch_iteration i p,
                   fetch_to data temp 2 ''forceZ'' dofs_to_xyz fetch_iteration i p,
                   blend cfg temp p,
                   traction_unguarded p])
       dofs_fetch_list"

definition fetch_iteration :: "config \<Rightarrow> int \<Rightarrow> int" where
  "fetch_iteration cfg total_Sub_Iteration =
     (if iparallelFSICoupling cfg then total_Sub_Iteration - 1 else total_Sub_Iteration)"

text \<open>
  \<open>MUI_Fetch\<close>. Line 363, \<open>temp_vec_function_temp = self.tF_apply_vec\<close>, binds a second
  name to the applied-load array: no copy is made.
\<close>

definition MUI_Fetch ::
  "config \<Rightarrow> (mat3 \<Rightarrow> vec3 \<Rightarrow> vec3) \<Rightarrow> partner \<Rightarrow> vec3 list \<Rightarrow> nat list \<Rightarrow> int \<Rightarrow> solver \<Rightarrow> solver outcome" where
  "MUI_Fetch cfg lstsq data dofs_to_xyz dofs_fetch_list total_Sub_Iteration s =
     (let temp_vec_function_temp = tF_apply_vec s;
          it = fetch_iteration cfg total_Sub_Iteration
      in if it \<ge> 0 then
           (if iMUIFetchMode cfg = 1 then
              fetch_resultant lstsq data dofs_to_xyz dofs_fetch_list it s
            else if iMUIFetchMany cfg then
              fetch_per_dof_many cfg data temp_vec_function_temp dofs_to_xyz dofs_fetch_list it s
            else if it \<ge> 0 then
              fetch_per_dof_single cfg data temp_vec_function_temp dofs_to_xyz dofs_fetch_list it s
            else Done s)
         else Done s)"

section \<open>Span announcement and sampler setup\<close>










section \<open>Worked inputs\<close>

text \<open>
  A configuration, a solver object with one DOF and a displacement, used where a
  statement is evaluated on concrete data. The four reference points are the corners
  of a unit panel in the plane \<open>z = 0\<close>, away from the origin.
\<close>

definition example_config :: config where
  "example_config =
     \<lparr>iMUICoupling = True, iparallelFSICoupling = False, undRelxCpl = 1 / 2,
      iMUIFetchMode = 0, iMUIFetchMany = False, iMUIPushMode = 0, iMUIPushMany = False,
      iPushX = True, iPushY = False, iPushZ = True, forgetTStepsMUI = 2,
      num_sub_iteration = 1,
      pointSDOFa = (1, - 1 / 2, 0), pointSDOFb = (2, - 1 / 2, 0),
      pointSDOFc = (1, 1 / 2, 0), pointSDOFd = (2, 1 / 2, 0)\<rparr>"

definition example_solver :: solver where
  "example_solver =
     \<lparr>arrays = (\<lambda>r. [Fin 0, Fin 0, Fin 0]), tF_apply_vec = 0, areaf_vec = [1],
      s_sampler = None, calls = [], printed = []\<rparr>"

text \<open>Every point displaced by the same vector, a heave of 5/4.\<close>

definition example_displacement :: displacement where
  "example_displacement = \<lparr>get_local = [7, 8, 9], point_disp = (\<lambda>p. (0, 0, 5 / 4))\<rparr>"

text \<open>A stand-in for scipy where the rotation does not matter.\<close>

definition stub_scipy :: scipy where
  "stub_scipy = \<lparr>align_vectors = (\<lambda>a b. mat_id), as_euler = (\<lambda>m. (0, 0, 0))\<rparr>"

section \<open>Predicates on operations\<close>

text \<open>A fetch call for the given time index.\<close>

fun fetch_at :: "int \<Rightarrow> call \<Rightarrow> bool" where
  "fetch_at n (Fetch f p m) = (m = n)"
| "fetch_at n (FetchMany f ps m) = (m = n)"
| "fetch_at n _ = False"

text \<open>
  An operation that, however it ends, has only added calls of one kind to the log.
\<close>

definition logs_only :: "(call \<Rightarrow> bool) \<Rightarrow> (solver \<Rightarrow> solver outcome) \<Rightarrow> bool" where
  "logs_only P f \<longleftrightarrow> (\<forall>s. \<exists>cs. calls (state_of (f s)) = calls s @ cs \<and> list_all P cs)"

text \<open>An operation that leaves the attribute \<open>self.tF_apply_vec\<close> bound to the same array.\<close>

definition keeps_binding :: "(solver \<Rightarrow> solver outcome) \<Rightarrow> bool" where
  "keeps_binding f \<longleftrightarrow> (\<forall>s. tF_apply_vec (state_of (f s)) = tF_apply_vec s)"







section \<open>Rigid-body alignment\<close>

text \<open>
  What scipy documents of \<open>Rotation.align_vectors(a, b)\<close>: the rotation \<open>C\<close> returned
  minimises the loss \<open>1/2 * sum_i |a_i - C b_i|^2\<close> (all weights are 1 here). The rows of
  \<open>a\<close> and \<open>b\<close> are vectors from the origin; no centroid is subtracted.
\<close>

definition align_loss :: "mat3 \<Rightarrow> vec3 list \<Rightarrow> vec3 list \<Rightarrow> real" where
  "align_loss C a b = (1 / 2) * sum_list (map2 (\<lambda>ai bi. norm2 (vsub ai (mat_vec C bi))) a b)"

definition is_rotation :: "mat3 \<Rightarrow> bool" where
  "is_rotation C \<longleftrightarrow>
     mat_mul C (mat_transpose C) = mat_id \<and> mat_mul (mat_transpose C) C = mat_id \<and> det C = 1"

definition best_alignment :: "mat3 \<Rightarrow> vec3 list \<Rightarrow> vec3 list \<Rightarrow> bool" where
  "best_alignment C a b \<longleftrightarrow>
     is_rotation C \<and> (\<forall>C'. is_rotation C' \<longrightarrow> align_loss C a b \<le> align_loss C' a b)"

text \<open>
  What scipy documents of \<open>as_euler('xyz')\<close>: the angles of three rotations about the
  fixed axes x, y and z, in that order, whose composition is the rotation.
\<close>

definition from_euler :: "vec3 \<Rightarrow> mat3" where
  "from_euler angles =
     (case angles of (ax, ay, az) \<Rightarrow>
        mat_mul ((cos az, - sin az, 0), (sin az, cos az, 0), (0, 0, 1))
          (mat_mul ((cos ay, 0, sin ay), (0, 1, 0), (- sin ay, 0, cos ay))
             ((1, 0, 0), (0, cos ax, - sin ax), (0, sin ax, cos ax))))"

text \<open>The rotation about the y axis by the angle with cosine 4/5 and sine 3/5.\<close>

definition pitch_rotation :: mat3 where
  "pitch_rotation = ((4 / 5, 0, 3 / 5), (0, 1, 0), (- 3 / 5, 0, 4 / 5))"

section \<open>Predicates on the applied load\<close>

text \<open>The three components of the applied load at DOF \<open>p\<close> are zero.\<close>

definition zero_load :: "nat \<Rightarrow> solver \<Rightarrow> bool" where
  "zero_load p s \<longleftrightarrow>
     load (tF_apply_vec s) 0 p s = Some (Fin 0) \<and>
     load (tF_apply_vec s) 1 p s = Some (Fin 0) \<and>
     load (tF_apply_vec s) 2 p s = Some (Fin 0)"

text \<open>
  An operation that, when it returns, has changed nothing of the area weights, of the
  binding of \<open>self.tF_apply_vec\<close> and of the applied load at the DOFs other than \<open>q\<close>.
\<close>

definition only_dof :: "nat \<Rightarrow> (solver \<Rightarrow> solver outcome) \<Rightarrow> bool" where
  "only_dof q f \<longleftrightarrow>
     (\<forall>s s1. f s = Done s1 \<longrightarrow>
        tF_apply_vec s1 = tF_apply_vec s \<and> areaf_vec s1 = areaf_vec s \<and>
        (\<forall>p c. p \<noteq> q \<longrightarrow> c < 3 \<longrightarrow>
           load (tF_apply_vec s1) c p s1 = load (tF_apply_vec s) c p s))"

section \<open>Properties of the call log\<close>

lemma seq_append: "seq (fs @ gs) s = (case seq fs s of Done s' \<Rightarrow> seq gs s' | Raised e s' \<Rightarrow> Raised e s')"
  by (induction fs arbitrary: s) (auto split: outcome.splits)

lemma seq_Done_appends:
  assumes "\<And>f s s'. f \<in> set fs \<Longrightarrow> f s = Done s' \<Longrightarrow> \<exists>cs. calls s' = calls s @ cs \<and> list_all P cs"
    and "seq fs s = Done s'"
  shows "\<exists>cs. calls s' = calls s @ cs \<and> list_all P cs"
  using assms
proof (induction fs arbitrary: s)
  case Nil
  then show ?case by simp
next
  case (Cons f fs)
  from Cons.prems(2) obtain s1 where f: "f s = Done s1" and r: "seq fs s1 = Done s'"
    by (auto split: outcome.splits)
  have "f \<in> set (f # fs)" by simp
  from Cons.prems(1)[of f s s1, OF this f] obtain cs1 where c1: "calls s1 = calls s @ cs1" "list_all P cs1"
    by auto
  have "\<exists>cs. calls s' = calls s1 @ cs \<and> list_all P cs"
  proof (rule Cons.IH[of s1])
    show "seq fs s1 = Done s'" by (rule r)
  next
    fix g t t' assume "g \<in> set fs" "g t = Done t'"
    then show "\<exists>cs. calls t' = calls t @ cs \<and> list_all P cs"
      using Cons.prems(1)[of g t t'] by simp
  qed
  then obtain cs2 where c2: "calls s' = calls s1 @ cs2" "list_all P cs2"
    by auto
  from c1 c2 show ?case by auto
qed

lemma iface_calls: "iface c s = Done s' \<Longrightarrow> calls s' = calls s @ [c]"
  by (auto simp: iface_def)

lemma push_many_appends:
  "push_many f c xyz dofs d s = Done s' \<Longrightarrow> \<exists>cs. calls s' = calls s @ cs \<and> list_all is_push cs"
  by (auto simp: push_many_def iface_def split: if_splits)

lemma push_one_appends:
  "push_one f c xyz d i p s = Done s' \<Longrightarrow> \<exists>cs. calls s' = calls s @ cs \<and> list_all is_push cs"
  by (auto simp: push_one_def iface_def split: option.splits)

lemma for_enumerate_appends:
  assumes "\<And>i p s s'. body i p s = Done s' \<Longrightarrow> \<exists>cs. calls s' = calls s @ cs \<and> list_all P cs"
    and "for_enumerate body xs s = Done s'"
  shows "\<exists>cs. calls s' = calls s @ cs \<and> list_all P cs"
  using assms(2) unfolding for_enumerate_def
  by (rule seq_Done_appends[rotated]) (use assms(1) in auto)

lemma run_if_appends:
  assumes "\<And>s s'. f s = Done s' \<Longrightarrow> \<exists>cs. calls s' = calls s @ cs \<and> list_all P cs"
    and "run_if b f s = Done s'"
  shows "\<exists>cs. calls s' = calls s @ cs \<and> list_all P cs"
  using assms by (cases b) (auto simp: run_if_def)

lemma seq2: "seq [f, g] s = Done s' \<Longrightarrow> \<exists>s1. f s = Done s1 \<and> g s1 = Done s'"
  by (auto split: outcome.splits)


lemma silent_step:
  assumes "logs_only (\<lambda>c. False) f" and "f s = Done s'"
  shows "calls s' = calls s"
proof -
  from assms(1) obtain cs where "calls (state_of (f s)) = calls s @ cs" "list_all (\<lambda>c. False) cs"
    unfolding logs_only_def by blast
  moreover from this(2) have "cs = []" by (cases cs) simp_all
  ultimately show ?thesis using assms(2) by simp
qed

lemma seq_Cons_Done:
  "seq (f # fs) s = Done s' \<longleftrightarrow> (\<exists>s1. f s = Done s1 \<and> seq fs s1 = Done s')"
  by (auto split: outcome.splits)

lemma forget_old_Done:
  "forget_old cfg N s = Done (s\<lparr>calls := calls s @
     (if forgetTStepsMUI cfg \<noteq> 0 \<and> N - forgetTStepsMUI cfg > 0
      then [Forget (N - forgetTStepsMUI cfg), SetMemory (forgetTStepsMUI cfg)] else [])\<rparr>)"
  by (simp add: forget_old_def iface_def)

lemma pushes_then_commit:
  assumes "\<And>f s s'. f \<in> set ps \<Longrightarrow> f s = Done s' \<Longrightarrow> \<exists>cs. calls s' = calls s @ cs \<and> list_all is_push cs"
    and "seq (ps @ [iface (Commit N)]) s = Done s'"
  shows "\<exists>cs. calls s' = calls s @ cs @ [Commit N] \<and> list_all is_push cs"
proof -
  from assms(2) obtain s1 where a: "seq ps s = Done s1" and b: "iface (Commit N) s1 = Done s'"
    by (auto simp: seq_append split: outcome.splits)
  have "\<exists>cs. calls s1 = calls s @ cs \<and> list_all is_push cs"
  proof (rule seq_Done_appends)
    show "seq ps s = Done s1" by (rule a)
  next
    fix f t t' assume "f \<in> set ps" "f t = Done t'"
    then show "\<exists>cs. calls t' = calls t @ cs \<and> list_all is_push cs" by (rule assms(1))
  qed
  with iface_calls[OF b] show ?thesis by auto
qed

lemma push_per_dof_calls:
  assumes "push_per_dof cfg xyz dofs d N s = Done s1"
  shows "\<exists>cs. calls s1 = calls s @ cs @ [Commit N] \<and> list_all is_push cs"
proof (cases "iMUIPushMany cfg")
  case True
  let ?ps = "[run_if (iPushX cfg) (push_many ''dispX'' 0 xyz dofs (get_local d)),
              run_if (iPushY cfg) (push_many ''dispY'' 1 xyz dofs (get_local d)),
              run_if (iPushZ cfg) (push_many ''dispZ'' 2 xyz dofs (get_local d))]"
  from assms True have a: "seq (?ps @ [iface (Commit N)]) s = Done s1"
    unfolding push_per_dof_def Let_def by (simp del: seq.simps)
  show ?thesis
    by (rule pushes_then_commit[OF _ a]) (auto elim!: run_if_appends[rotated] push_many_appends)
next
  case False
  let ?ps = "[run_if (iPushX cfg) (for_enumerate (push_one ''dispX'' 0 xyz (get_local d)) dofs),
              run_if (iPushY cfg) (for_enumerate (push_one ''dispY'' 1 xyz (get_local d)) dofs),
              run_if (iPushZ cfg) (for_enumerate (push_one ''dispZ'' 2 xyz (get_local d)) dofs)]"
  from assms False have a: "seq (?ps @ [iface (Commit N)]) s = Done s1"
    unfolding push_per_dof_def Let_def by (simp del: seq.simps)
  show ?thesis
    by (rule pushes_then_commit[OF _ a])
      (auto elim!: run_if_appends[rotated] for_enumerate_appends[rotated] push_one_appends)
qed

lemma push_rigid_body_Done:
  "push_rigid_body cfg lib d N s = Done (s\<lparr>calls := calls s @
     [Push ''dispX'' origin (fst (Trans cfg d)),
      Push ''dispY'' origin (fst (snd (Trans cfg d))),
      Push ''dispZ'' origin (snd (snd (Trans cfg d))),
      Push ''angleX'' origin (- fst (euler_angles lib cfg d)),
      Push ''angleY'' origin (- fst (snd (euler_angles lib cfg d))),
      Push ''angleZ'' origin (- snd (snd (euler_angles lib cfg d))),
      Commit N]\<rparr>)"
  by (simp add: push_rigid_body_def iface_def split: prod.splits)

lemma MUI_Push_body_calls:
  assumes "MUI_Push cfg lib xyz dofs d N s = Done s'"
  shows "\<exists>cs. list_all is_push cs \<and> calls s' = calls s @ cs @
           (if iMUIPushMode cfg = 0 \<or> iMUIPushMode cfg = 1 then [Commit N] else []) @
           (if forgetTStepsMUI cfg \<noteq> 0 \<and> N - forgetTStepsMUI cfg > 0
            then [Forget (N - forgetTStepsMUI cfg), SetMemory (forgetTStepsMUI cfg)] else [])"
proof -
  let ?C = "if iMUIPushMode cfg = 0 \<or> iMUIPushMode cfg = 1 then [Commit N] else []"
  from seq2[OF assms[unfolded MUI_Push_def]] obtain s1 where
    body: "(if iMUIPushMode cfg = 0 then push_per_dof cfg xyz dofs d N
            else if iMUIPushMode cfg = 1 then push_rigid_body cfg lib d N
            else seq []) s = Done s1" and b: "forget_old cfg N s1 = Done s'"
    by blast
  have "\<exists>cs. list_all is_push cs \<and> calls s1 = calls s @ cs @ ?C"
  proof (cases "iMUIPushMode cfg = 0")
    case True
    with body push_per_dof_calls[of cfg xyz dofs d N s s1] show ?thesis by auto
  next
    case False
    show ?thesis
    proof (cases "iMUIPushMode cfg = 1")
      case True
      with body False have "calls s1 = calls s @ [Push ''dispX'' origin (fst (Trans cfg d)),
      Push ''dispY'' origin (fst (snd (Trans cfg d))),
      Push ''dispZ'' origin (snd (snd (Trans cfg d))),
      Push ''angleX'' origin (- fst (euler_angles lib cfg d)),
      Push ''angleY'' origin (- fst (snd (euler_angles lib cfg d))),
      Push ''angleZ'' origin (- snd (snd (euler_angles lib cfg d)))] @ [Commit N]"
        by (auto simp: push_rigid_body_Done)
      moreover have "list_all is_push [Push ''dispX'' origin (fst (Trans cfg d)),
      Push ''dispY'' origin (fst (snd (Trans cfg d))),
      Push ''dispZ'' origin (snd (snd (Trans cfg d))),
      Push ''angleX'' origin (- fst (euler_angles lib cfg d)),
      Push ''angleY'' origin (- fst (snd (euler_angles lib cfg d))),
      Push ''angleZ'' origin (- snd (snd (euler_angles lib cfg d)))]" by simp
      ultimately show ?thesis using True by (intro exI conjI) auto
    next
      case neither: False
      with body False have "s1 = s" by simp
      with False neither show ?thesis by (intro exI[of _ "[]"]) simp
    qed
  qed
  with b show ?thesis by (auto simp: forget_old_Done)
qed



lemma example_push:
  "MUI_Push example_config stub_scipy [(0, 0, 0)] [0] example_displacement 5 example_solver =
     Done (example_solver\<lparr>calls :=
       [Push ''dispX'' (0, 0, 0) 7, Push ''dispZ'' (0, 0, 0) 9, Commit 5, Forget 3, SetMemory 2]\<rparr>)"
  by (simp add: MUI_Push_def push_per_dof_def example_config_def example_solver_def
      example_displacement_def run_if_def for_enumerate_def push_one_def index_def strided_def
      iface_def forget_old_def enumerate_eq_zip Let_def)


text \<open>
  Claim C9. The specification has two push modes, per-DOF (0) and rigid-body (1). In
  either of them a \<open>MUI_Push\<close> that returns has issued exactly one commit, at the
  current index \<open>N\<close>, whatever the per-axis flags, the batching flag, the retention
  depth and the data pushed are.
\<close>

theorem commit_once_per_push:
  assumes "MUI_Push cfg lib xyz dofs d N s = Done s'"
    and "iMUIPushMode cfg = 0 \<or> iMUIPushMode cfg = 1"
  shows "filter is_commit (issued s s') = [Commit N]"
proof -
  have nc: "list_all is_push cs \<Longrightarrow> filter is_commit cs = []" for cs
    by (induction cs) (auto elim: is_push.elims)
  from MUI_Push_body_calls[OF assms(1)] obtain cs where "list_all is_push cs" and
    "calls s' = calls s @ cs @
           (if iMUIPushMode cfg = 0 \<or> iMUIPushMode cfg = 1 then [Commit N] else []) @
           (if forgetTStepsMUI cfg \<noteq> 0 \<and> N - forgetTStepsMUI cfg > 0
            then [Forget (N - forgetTStepsMUI cfg), SetMemory (forgetTStepsMUI cfg)] else [])"
    by blast
  with assms(2) show ?thesis by (auto simp: issued_def nc)
qed

text \<open>The rigid-body push on the worked input, with the stand-in for scipy.\<close>

lemma example_push_rigid:
  "MUI_Push (example_config\<lparr>iMUIPushMode := 1\<rparr>) stub_scipy [(0, 0, 0)] [0]
      example_displacement 5 example_solver =
     Done (example_solver\<lparr>calls :=
       [Push ''dispX'' (0, 0, 0) 0, Push ''dispY'' (0, 0, 0) 0, Push ''dispZ'' (0, 0, 0) (5 / 4),
        Push ''angleX'' (0, 0, 0) 0, Push ''angleY'' (0, 0, 0) 0, Push ''angleZ'' (0, 0, 0) 0,
        Commit 5, Forget 3, SetMemory 2]\<rparr>)"
  by (simp add: MUI_Push_def push_rigid_body_def example_config_def example_solver_def
      example_displacement_def stub_scipy_def Trans_def euler_angles_def disp_array_def
      init_array_def corners_new_def vsum_def vadd_def vscale_def origin_def
      iface_def forget_old_def Let_def)

theorem commit_once_per_push_witness:
  "filter is_commit (issued example_solver (state_of
     (MUI_Push example_config stub_scipy [(0, 0, 0)] [0] example_displacement 5 example_solver)))
   = [Commit 5]
   \<and> filter is_commit (issued example_solver (state_of
     (MUI_Push (example_config\<lparr>iMUIPushMode := 1\<rparr>) stub_scipy [(0, 0, 0)] [0]
        example_displacement 5 example_solver)))
   = [Commit 5]"
  using commit_once_per_push[OF example_push] commit_once_per_push[OF example_push_rigid]
    example_push example_push_rigid
  by (simp add: example_config_def)

section \<open>Properties of the fetch\<close>

lemma logs_only_seq:
  assumes "\<And>f. f \<in> set fs \<Longrightarrow> logs_only P f"
  shows "logs_only P (seq fs)"
  using assms
proof (induction fs)
  case Nil
  show ?case by (simp add: logs_only_def)
next
  case (Cons f fs)
  have f: "logs_only P f" and r: "logs_only P (seq fs)"
    using Cons by auto
  show ?case unfolding logs_only_def
  proof
    fix s
    from f obtain cs1 where c1: "calls (state_of (f s)) = calls s @ cs1" "list_all P cs1"
      unfolding logs_only_def by blast
    show "\<exists>cs. calls (state_of (seq (f # fs) s)) = calls s @ cs \<and> list_all P cs"
    proof (cases "f s")
      case (Done s1)
      from r obtain cs2 where "calls (state_of (seq fs s1)) = calls s1 @ cs2" "list_all P cs2"
        unfolding logs_only_def by blast
      with c1 Done show ?thesis by auto
    next
      case (Raised e s1)
      with c1 show ?thesis by auto
    qed
  qed
qed

lemma logs_only_for_enumerate:
  assumes "\<And>i p. logs_only P (body i p)"
  shows "logs_only P (for_enumerate body xs)"
  unfolding for_enumerate_def by (rule logs_only_seq) (use assms in auto)


lemma logs_only_iface: "P c \<Longrightarrow> logs_only P (iface c)"
  by (simp add: logs_only_def iface_def)

lemma logs_only_store: "logs_only P (store r c p v)"
  by (simp add: logs_only_def store_def)

lemma logs_only_set_load: "logs_only P (set_load c p v)"
  by (simp add: logs_only_def set_load_def store_def)

lemma logs_only_store_many: "logs_only P (store_many r c idx vals)"
  by (simp add: logs_only_def store_many_def)

lemma logs_only_under_relax: "logs_only P (under_relax t r c p)"
  by (simp add: logs_only_def under_relax_def set_load_def store_def split: option.splits)

lemma logs_only_overwrite: "logs_only P (overwrite t c p)"
  by (simp add: logs_only_def overwrite_def set_load_def store_def split: option.splits)

lemma logs_only_divide: "logs_only P (divide_by_area c p)"
  by (simp add: logs_only_def divide_by_area_def set_load_def store_def split: option.splits)

lemma logs_only_blend: "logs_only P (blend cfg t p)"
  unfolding blend_def
  by (auto intro!: logs_only_seq logs_only_under_relax logs_only_overwrite)

lemma logs_only_traction_unguarded: "logs_only P (traction_unguarded p)"
  unfolding traction_unguarded_def by (auto intro!: logs_only_seq logs_only_divide)

lemma logs_only_traction_guarded: "logs_only P (traction_guarded p)"
proof -
  have a: "logs_only P (seq [set_load 0 p (Fin 0), set_load 1 p (Fin 0), set_load 2 p (Fin 0)])"
    by (auto intro!: logs_only_seq logs_only_set_load)
  have b: "logs_only P (seq [divide_by_area 0 p, divide_by_area 1 p, divide_by_area 2 p])"
    by (auto intro!: logs_only_seq logs_only_divide)
  show ?thesis unfolding logs_only_def
  proof
    fix s
    show "\<exists>cs. calls (state_of (traction_guarded p s)) = calls s @ cs \<and> list_all P cs"
      using a b unfolding logs_only_def traction_guarded_def
      by (auto split: option.splits)
  qed
qed

lemma logs_only_fetch_to: "logs_only (fetch_at n) (fetch_to data t c field xyz n i p)"
proof -
  have a: "logs_only (fetch_at n) (seq [iface (Fetch field q n), store t c p v])" for q v
    by (auto intro!: logs_only_seq logs_only_iface logs_only_store)
  show ?thesis unfolding logs_only_def
  proof
    fix s
    show "\<exists>cs. calls (state_of (fetch_to data t c field xyz n i p s)) = calls s @ cs \<and>
               list_all (fetch_at n) cs"
      using a unfolding logs_only_def fetch_to_def by (auto split: option.splits)
  qed
qed

lemma logs_only_fetch_many_to: "logs_only (fetch_at n) (fetch_many_to data t c field xyz dofs n)"
  unfolding fetch_many_to_def
  by (auto intro!: logs_only_seq logs_only_iface logs_only_store_many)

lemma logs_only_apply_resultant: "logs_only P (apply_resultant F_out i p)"
proof -
  have a: "logs_only P (seq [set_load 0 p (Fin fx), set_load 1 p (Fin fy), set_load 2 p (Fin fz),
               traction_guarded p])" for fx fy fz
    by (auto intro!: logs_only_seq logs_only_set_load logs_only_traction_guarded)
  show ?thesis unfolding logs_only_def
  proof
    fix s
    show "\<exists>cs. calls (state_of (apply_resultant F_out i p s)) = calls s @ cs \<and> list_all P cs"
      using a unfolding logs_only_def apply_resultant_def by (auto split: option.splits prod.splits)
  qed
qed

lemma logs_only_fetch_resultant:
  "logs_only (fetch_at n) (fetch_resultant lstsq data xyz dofs n)"
  unfolding fetch_resultant_def Let_def
  by (auto intro!: logs_only_seq logs_only_iface logs_only_for_enumerate logs_only_apply_resultant)

lemma logs_only_fetch_per_dof_many:
  "logs_only (fetch_at n) (fetch_per_dof_many cfg data t xyz dofs n)"
  unfolding fetch_per_dof_many_def
  by (auto intro!: logs_only_seq logs_only_fetch_many_to logs_only_for_enumerate
      logs_only_blend logs_only_traction_guarded)

lemma logs_only_fetch_per_dof_single:
  "logs_only (fetch_at n) (fetch_per_dof_single cfg data t xyz dofs n)"
  unfolding fetch_per_dof_single_def
  by (auto intro!: logs_only_seq logs_only_fetch_to logs_only_for_enumerate
      logs_only_blend logs_only_traction_unguarded)

lemma MUI_Fetch_logs:
  "logs_only (fetch_at (fetch_iteration cfg n)) (MUI_Fetch cfg lstsq data xyz dofs n)"
proof -
  have d: "logs_only P Done" for P by (simp add: logs_only_def)
  show ?thesis
    unfolding logs_only_def
  proof
    fix s
    show "\<exists>cs. calls (state_of (MUI_Fetch cfg lstsq data xyz dofs n s)) = calls s @ cs \<and>
            list_all (fetch_at (fetch_iteration cfg n)) cs"
      using logs_only_fetch_resultant[of "fetch_iteration cfg n" lstsq data xyz dofs]
        logs_only_fetch_per_dof_many[of "fetch_iteration cfg n" cfg data _ xyz dofs]
        logs_only_fetch_per_dof_single[of "fetch_iteration cfg n" cfg data _ xyz dofs]
      unfolding logs_only_def MUI_Fetch_def Let_def by auto
  qed
qed

lemmas fetch_eval_defs =
  MUI_Fetch_def fetch_iteration_def fetch_per_dof_single_def fetch_per_dof_many_def
  for_enumerate_def fetch_to_def fetch_many_to_def store_many_def index_def iface_def store_def
  blend_def under_relax_def overwrite_def load_def strided_def set_load_def
  traction_unguarded_def traction_guarded_def divide_by_area_def
  example_config_def example_solver_def Let_def

lemma silent_any:
  assumes "logs_only (\<lambda>c. False) f"
  shows "calls (state_of (f s)) = calls s"
proof -
  from assms obtain cs where "calls (state_of (f s)) = calls s @ cs" "list_all (\<lambda>c. False) cs"
    unfolding logs_only_def by blast
  moreover from this(2) have "cs = []" by (cases cs) simp_all
  ultimately show ?thesis by simp
qed

lemma seq_ifaces: "seq (map iface cs) s = Done (s\<lparr>calls := calls s @ cs\<rparr>)"
  by (induction cs arbitrary: s) (simp_all add: iface_def)

lemma state_of_seq2: "f s = Done s1 \<Longrightarrow> state_of (seq [f, g] s) = state_of (g s1)"
  by (simp split: outcome.splits)

lemma fetch_resultant_calls:
  "calls (state_of (fetch_resultant lstsq data xyz dofs n s)) =
     calls s @ map (\<lambda>field. Fetch field origin n) resultant_fields"
proof -
  let ?cs = "map (\<lambda>field. Fetch field origin n) resultant_fields"
  have "map (\<lambda>field. iface (Fetch field origin n)) resultant_fields = map iface ?cs"
    by (simp add: comp_def)
  then have first: "seq (map (\<lambda>field. iface (Fetch field origin n)) resultant_fields) s =
      Done (s\<lparr>calls := calls s @ ?cs\<rparr>)"
    by (simp only: seq_ifaces)
  have quiet: "logs_only (\<lambda>c. False) (for_enumerate (apply_resultant F) dofs)" for F
    by (rule logs_only_for_enumerate) (rule logs_only_apply_resultant)
  have "state_of (seq [seq (map (\<lambda>field. iface (Fetch field origin n)) resultant_fields),
          for_enumerate (apply_resultant F) dofs] s) =
        state_of (for_enumerate (apply_resultant F) dofs (s\<lparr>calls := calls s @ ?cs\<rparr>))" for F
    by (rule state_of_seq2) (rule first)
  then show ?thesis
    unfolding fetch_resultant_def Let_def
    using silent_any[OF quiet, of _ "s\<lparr>calls := calls s @ ?cs\<rparr>"] by simp
qed

lemma fetch_many_to_Done:
  "fetch_many_to data t c f xyz dofs n s = Done s' \<Longrightarrow> calls s' = calls s @ [FetchMany f xyz n]"
  by (auto simp: fetch_many_to_def iface_def store_many_def split: if_splits)

lemma fetch_per_dof_many_calls:
  assumes "fetch_per_dof_many cfg data t xyz dofs n s = Done s'"
  shows "calls s' = calls s @
           [FetchMany ''forceX'' xyz n, FetchMany ''forceY'' xyz n, FetchMany ''forceZ'' xyz n]"
proof -
  from assms obtain a b c where
    a: "fetch_many_to data t 0 ''forceX'' xyz dofs n s = Done a" and
    b: "fetch_many_to data t 1 ''forceY'' xyz dofs n a = Done b" and
    c: "fetch_many_to data t 2 ''forceZ'' xyz dofs n b = Done c" and
    l: "for_enumerate (\<lambda>i p. seq [blend cfg t p, traction_guarded p]) dofs c = Done s'"
    unfolding fetch_per_dof_many_def by (auto split: outcome.splits)
  have "logs_only (\<lambda>c. False) (for_enumerate (\<lambda>i p. seq [blend cfg t p, traction_guarded p]) dofs)"
    by (auto intro!: logs_only_for_enumerate logs_only_seq logs_only_blend
        logs_only_traction_guarded)
  from silent_step[OF this l] fetch_many_to_Done[OF a] fetch_many_to_Done[OF b]
    fetch_many_to_Done[OF c]
  show ?thesis by simp
qed

lemma fetch_to_Done:
  "fetch_to data t c f xyz n i p s = Done s' \<Longrightarrow>
     i < length xyz \<and> calls s' = calls s @ [Fetch f (xyz ! i) n]"
  by (auto simp: fetch_to_def index_def iface_def store_def split: option.splits if_splits)

lemma single_round_Done:
  assumes "seq [fetch_to data t 0 ''forceX'' xyz n i p,
                fetch_to data t 1 ''forceY'' xyz n i p,
                fetch_to data t 2 ''forceZ'' xyz n i p,
                blend cfg t p, traction_unguarded p] s = Done s'"
  shows "i < length xyz \<and> calls s' = calls s @
           [Fetch ''forceX'' (xyz ! i) n, Fetch ''forceY'' (xyz ! i) n, Fetch ''forceZ'' (xyz ! i) n]"
proof -
  from assms obtain a b c d where
    a: "fetch_to data t 0 ''forceX'' xyz n i p s = Done a" and
    b: "fetch_to data t 1 ''forceY'' xyz n i p a = Done b" and
    c: "fetch_to data t 2 ''forceZ'' xyz n i p b = Done c" and
    d: "blend cfg t p c = Done d" and
    e: "traction_unguarded p d = Done s'"
    by (auto split: outcome.splits)
  from silent_step[OF logs_only_blend d] silent_step[OF logs_only_traction_unguarded e]
    fetch_to_Done[OF a] fetch_to_Done[OF b] fetch_to_Done[OF c]
  show ?thesis by simp
qed

lemma single_rounds_calls:
  assumes "seq (map (\<lambda>(i, p). seq [fetch_to data t 0 ''forceX'' xyz n i p,
                fetch_to data t 1 ''forceY'' xyz n i p,
                fetch_to data t 2 ''forceZ'' xyz n i p,
                blend cfg t p, traction_unguarded p]) (enumerate k dofs)) s = Done s'"
  shows "calls s' = calls s @ concat (map
           (\<lambda>q. [Fetch ''forceX'' q n, Fetch ''forceY'' q n, Fetch ''forceZ'' q n])
           (take (length dofs) (drop k xyz)))"
  using assms
proof (induction dofs arbitrary: k s)
  case Nil
  then show ?case by simp
next
  case (Cons p ps)
  from Cons.prems obtain s1 where
    r: "seq [fetch_to data t 0 ''forceX'' xyz n k p,
                fetch_to data t 1 ''forceY'' xyz n k p,
                fetch_to data t 2 ''forceZ'' xyz n k p,
                blend cfg t p, traction_unguarded p] s = Done s1" and
    rest: "seq (map (\<lambda>(i, p). seq [fetch_to data t 0 ''forceX'' xyz n i p,
                fetch_to data t 1 ''forceY'' xyz n i p,
                fetch_to data t 2 ''forceZ'' xyz n i p,
                blend cfg t p, traction_unguarded p]) (enumerate (Suc k) ps)) s1 = Done s'"
    by (auto simp del: seq.simps simp add: seq_Cons_Done)
  from single_round_Done[OF r] have k: "k < length xyz" and
    c1: "calls s1 = calls s @
           [Fetch ''forceX'' (xyz ! k) n, Fetch ''forceY'' (xyz ! k) n, Fetch ''forceZ'' (xyz ! k) n]"
    by simp_all
  from k have "take (length (p # ps)) (drop k xyz) = xyz ! k # take (length ps) (drop (Suc k) xyz)"
    by (simp add: Cons_nth_drop_Suc[symmetric])
  with Cons.IH[OF rest] c1 show ?case by simp
qed

lemma fetch_per_dof_single_calls:
  assumes "fetch_per_dof_single cfg data t xyz dofs n s = Done s'"
  shows "calls s' = calls s @ concat (map
           (\<lambda>q. [Fetch ''forceX'' q n, Fetch ''forceY'' q n, Fetch ''forceZ'' q n])
           (take (length dofs) xyz))"
  using single_rounds_calls[of data "t" xyz n cfg 0 dofs s s'] assms
  unfolding fetch_per_dof_single_def for_enumerate_def by simp

text \<open>
  Claim C5. With current sub-iteration index \<open>n\<close>, the time index that \<open>MUI_Fetch\<close>
  resolves is \<open>n - 1\<close> when the implicit/parallel-coupling flag is set and \<open>n\<close>
  otherwise. Every call the method makes on the interface, however it ends, is a fetch
  for that index. When the index is negative the method returns with the object
  unchanged: no call is made and the applied-load array is as it was. When the index is
  not negative the fetches are made: in the resultant mode the nine fetches at the
  origin, whether the loop that follows returns or raises; in the batched mode, when
  the method returns, the three \<open>fetch_many\<close> calls on \<open>dofs_to_xyz\<close>; and in the
  one-call-per-point mode, when the method returns, the fetches of \<open>forceX\<close>, \<open>forceY\<close>
  and \<open>forceZ\<close> at \<open>dofs_to_xyz[i]\<close> for each position \<open>i\<close> of the fetch DOF list, in
  this order.
\<close>

theorem fetch_index_policy:
  "fetch_iteration cfg n = (if iparallelFSICoupling cfg then n - 1 else n)
   \<and> list_all (fetch_at (fetch_iteration cfg n))
       (issued s (state_of (MUI_Fetch cfg lstsq data xyz dofs n s)))
   \<and> (fetch_iteration cfg n < 0 \<longrightarrow> MUI_Fetch cfg lstsq data xyz dofs n s = Done s)
   \<and> (0 \<le> fetch_iteration cfg n \<and>
        (iMUIFetchMode cfg = 1 \<or> MUI_Fetch cfg lstsq data xyz dofs n s = Done s') \<longrightarrow>
        issued s (state_of (MUI_Fetch cfg lstsq data xyz dofs n s)) =
          (if iMUIFetchMode cfg = 1 then
             map (\<lambda>field. Fetch field origin (fetch_iteration cfg n)) resultant_fields
           else if iMUIFetchMany cfg then
             [FetchMany ''forceX'' xyz (fetch_iteration cfg n),
              FetchMany ''forceY'' xyz (fetch_iteration cfg n),
              FetchMany ''forceZ'' xyz (fetch_iteration cfg n)]
           else
             concat (map (\<lambda>q. [Fetch ''forceX'' q (fetch_iteration cfg n),
                                Fetch ''forceY'' q (fetch_iteration cfg n),
                                Fetch ''forceZ'' q (fetch_iteration cfg n)])
                       (take (length dofs) xyz))))"
proof (intro conjI impI)
  show "fetch_iteration cfg n = (if iparallelFSICoupling cfg then n - 1 else n)"
    by (simp add: fetch_iteration_def)
next
  from MUI_Fetch_logs[of cfg n lstsq data xyz dofs]
  obtain cs where "calls (state_of (MUI_Fetch cfg lstsq data xyz dofs n s)) = calls s @ cs"
    "list_all (fetch_at (fetch_iteration cfg n)) cs"
    unfolding logs_only_def by blast
  then show "list_all (fetch_at (fetch_iteration cfg n))
     (issued s (state_of (MUI_Fetch cfg lstsq data xyz dofs n s)))"
    by (simp add: issued_def)
next
  assume "fetch_iteration cfg n < 0"
  then show "MUI_Fetch cfg lstsq data xyz dofs n s = Done s"
    by (simp add: MUI_Fetch_def)
next
  let ?it = "fetch_iteration cfg n"
  assume a: "0 \<le> ?it \<and> (iMUIFetchMode cfg = 1 \<or> MUI_Fetch cfg lstsq data xyz dofs n s = Done s')"
  show "issued s (state_of (MUI_Fetch cfg lstsq data xyz dofs n s)) =
          (if iMUIFetchMode cfg = 1 then
             map (\<lambda>field. Fetch field origin ?it) resultant_fields
           else if iMUIFetchMany cfg then
             [FetchMany ''forceX'' xyz ?it, FetchMany ''forceY'' xyz ?it, FetchMany ''forceZ'' xyz ?it]
           else
             concat (map (\<lambda>q. [Fetch ''forceX'' q ?it, Fetch ''forceY'' q ?it, Fetch ''forceZ'' q ?it])
                       (take (length dofs) xyz)))"
  proof (cases "iMUIFetchMode cfg = 1")
    case True
    with a have "MUI_Fetch cfg lstsq data xyz dofs n s = fetch_resultant lstsq data xyz dofs ?it s"
      by (simp add: MUI_Fetch_def)
    with True show ?thesis by (simp add: issued_def fetch_resultant_calls)
  next
    case False
    with a have d: "MUI_Fetch cfg lstsq data xyz dofs n s = Done s'" by simp
    show ?thesis
    proof (cases "iMUIFetchMany cfg")
      case True
      with a False d have "fetch_per_dof_many cfg data (tF_apply_vec s) xyz dofs ?it s = Done s'"
        by (simp add: MUI_Fetch_def)
      from fetch_per_dof_many_calls[OF this] d False True show ?thesis
        by (simp add: issued_def)
    next
      case single: False
      with a False d have "fetch_per_dof_single cfg data (tF_apply_vec s) xyz dofs ?it s = Done s'"
        by (simp add: MUI_Fetch_def)
      from fetch_per_dof_single_calls[OF this] d False single show ?thesis
        by (simp add: issued_def)
    qed
  qed
qed

lemma example_fetch_lagged:
  "MUI_Fetch (example_config\<lparr>iparallelFSICoupling := True\<rparr>) (\<lambda>A b. (0, 0, 0))
     (\<lambda>field xyz n. real_of_int n) [(0, 0, 0)] [0] 3 example_solver =
   Done (example_solver\<lparr>
     arrays := (arrays example_solver)(0 := [Fin 2, Fin 2, Fin 2]),
     calls := [Fetch ''forceX'' (0, 0, 0) 2, Fetch ''forceY'' (0, 0, 0) 2,
               Fetch ''forceZ'' (0, 0, 0) 2]\<rparr>)"
  by (simp add: fetch_eval_defs)

lemma example_fetch_current:
  "MUI_Fetch example_config (\<lambda>A b. (0, 0, 0))
     (\<lambda>field xyz n. real_of_int n) [(0, 0, 0)] [0] 3 example_solver =
   Done (example_solver\<lparr>
     arrays := (arrays example_solver)(0 := [Fin 3, Fin 3, Fin 3]),
     calls := [Fetch ''forceX'' (0, 0, 0) 3, Fetch ''forceY'' (0, 0, 0) 3,
               Fetch ''forceZ'' (0, 0, 0) 3]\<rparr>)"
  by (simp add: fetch_eval_defs)

text \<open>
  On the worked input the partner returns the time index as the value of every field.
  With sub-iteration index 3 the fetches are for index 2 when the flag is set and for
  index 3 when it is not; with sub-iteration index 0 and the flag set nothing is done.
\<close>

theorem fetch_index_policy_witness:
  "issued example_solver
     (state_of (MUI_Fetch (example_config\<lparr>iparallelFSICoupling := True\<rparr>) (\<lambda>A b. (0, 0, 0))
        (\<lambda>field xyz n. real_of_int n) [(0, 0, 0)] [0] 3 example_solver)) =
     [Fetch ''forceX'' (0, 0, 0) 2, Fetch ''forceY'' (0, 0, 0) 2, Fetch ''forceZ'' (0, 0, 0) 2]
   \<and> issued example_solver
     (state_of (MUI_Fetch example_config (\<lambda>A b. (0, 0, 0))
        (\<lambda>field xyz n. real_of_int n) [(0, 0, 0)] [0] 3 example_solver)) =
     [Fetch ''forceX'' (0, 0, 0) 3, Fetch ''forceY'' (0, 0, 0) 3, Fetch ''forceZ'' (0, 0, 0) 3]
   \<and> MUI_Fetch (example_config\<lparr>iparallelFSICoupling := True\<rparr>) (\<lambda>A b. (0, 0, 0))
       (\<lambda>field xyz n. real_of_int n) [(0, 0, 0)] [0] 0 example_solver = Done example_solver"
proof -
  have flag: "iparallelFSICoupling (example_config\<lparr>iparallelFSICoupling := True\<rparr>)"
    "\<not> iparallelFSICoupling example_config"
    "iMUIFetchMode (example_config\<lparr>iparallelFSICoupling := True\<rparr>) = 0"
    "iMUIFetchMode example_config = 0"
    "\<not> iMUIFetchMany (example_config\<lparr>iparallelFSICoupling := True\<rparr>)"
    "\<not> iMUIFetchMany example_config"
    by (simp_all add: example_config_def)
  show ?thesis
    using fetch_index_policy[of "example_config\<lparr>iparallelFSICoupling := True\<rparr>" 3
        example_solver "\<lambda>A b. (0, 0, 0)" "\<lambda>field xyz n. real_of_int n" "[(0, 0, 0)]" "[0]"
        "example_solver\<lparr>
           arrays := (arrays example_solver)(0 := [Fin 2, Fin 2, Fin 2]),
           calls := [Fetch ''forceX'' (0, 0, 0) 2, Fetch ''forceY'' (0, 0, 0) 2,
                     Fetch ''forceZ'' (0, 0, 0) 2]\<rparr>"]
      fetch_index_policy[of example_config 3 example_solver
        "\<lambda>A b. (0, 0, 0)" "\<lambda>field xyz n. real_of_int n" "[(0, 0, 0)]" "[0]"
        "example_solver\<lparr>
           arrays := (arrays example_solver)(0 := [Fin 3, Fin 3, Fin 3]),
           calls := [Fetch ''forceX'' (0, 0, 0) 3, Fetch ''forceY'' (0, 0, 0) 3,
                     Fetch ''forceZ'' (0, 0, 0) 3]\<rparr>"]
      fetch_index_policy[of "example_config\<lparr>iparallelFSICoupling := True\<rparr>" 0
        example_solver "\<lambda>A b. (0, 0, 0)" "\<lambda>field xyz n. real_of_int n" "[(0, 0, 0)]" "[0]"]
      example_fetch_lagged example_fetch_current
    by (simp add: flag)
qed

section \<open>The temporary fetch array is the applied-load array\<close>

lemma zero_increment: "fadd v (fmul (fsub v v) r) = v"
  by (cases v) simp_all

lemma under_relax_alias:
  "under_relax (tF_apply_vec s) r c p s = overwrite (tF_apply_vec s) c p s"
  by (simp add: under_relax_def overwrite_def zero_increment split: option.splits)

lemma keeps_binding_seq:
  assumes "\<And>f. f \<in> set fs \<Longrightarrow> keeps_binding f"
  shows "keeps_binding (seq fs)"
  using assms
proof (induction fs)
  case Nil
  show ?case by (simp add: keeps_binding_def)
next
  case (Cons f fs)
  have f: "keeps_binding f" and r: "keeps_binding (seq fs)"
    using Cons by auto
  show ?case unfolding keeps_binding_def
  proof
    fix s
    from f have k: "tF_apply_vec (state_of (f s)) = tF_apply_vec s"
      unfolding keeps_binding_def by blast
    show "tF_apply_vec (state_of (seq (f # fs) s)) = tF_apply_vec s"
    proof (cases "f s")
      case (Done s1)
      from r have "tF_apply_vec (state_of (seq fs s1)) = tF_apply_vec s1"
        unfolding keeps_binding_def by blast
      with k Done show ?thesis by simp
    next
      case (Raised e s1)
      with k show ?thesis by simp
    qed
  qed
qed

lemma keeps_binding_for_enumerate:
  assumes "\<And>i p. keeps_binding (body i p)"
  shows "keeps_binding (for_enumerate body xs)"
  unfolding for_enumerate_def by (rule keeps_binding_seq) (use assms in auto)

lemma keeps_binding_iface: "keeps_binding (iface c)"
  by (simp add: keeps_binding_def iface_def)

lemma keeps_binding_store: "keeps_binding (store r c p v)"
  by (simp add: keeps_binding_def store_def)

lemma keeps_binding_set_load: "keeps_binding (set_load c p v)"
  by (simp add: keeps_binding_def set_load_def store_def)

lemma keeps_binding_store_many: "keeps_binding (store_many r c idx vals)"
  by (simp add: keeps_binding_def store_many_def)

lemma keeps_binding_under_relax: "keeps_binding (under_relax t r c p)"
  by (simp add: keeps_binding_def under_relax_def set_load_def store_def split: option.splits)

lemma keeps_binding_overwrite: "keeps_binding (overwrite t c p)"
  by (simp add: keeps_binding_def overwrite_def set_load_def store_def split: option.splits)

lemma keeps_binding_divide: "keeps_binding (divide_by_area c p)"
  by (simp add: keeps_binding_def divide_by_area_def set_load_def store_def split: option.splits)

lemma keeps_binding_blend: "keeps_binding (blend cfg t p)"
  unfolding blend_def
  by (auto intro!: keeps_binding_seq keeps_binding_under_relax keeps_binding_overwrite)

lemma keeps_binding_traction_unguarded: "keeps_binding (traction_unguarded p)"
  unfolding traction_unguarded_def by (auto intro!: keeps_binding_seq keeps_binding_divide)

lemma keeps_binding_traction_guarded: "keeps_binding (traction_guarded p)"
proof -
  have a: "keeps_binding (seq [set_load 0 p (Fin 0), set_load 1 p (Fin 0), set_load 2 p (Fin 0)])"
    by (auto intro!: keeps_binding_seq keeps_binding_set_load)
  have b: "keeps_binding (seq [divide_by_area 0 p, divide_by_area 1 p, divide_by_area 2 p])"
    by (auto intro!: keeps_binding_seq keeps_binding_divide)
  show ?thesis unfolding keeps_binding_def
  proof
    fix s
    show "tF_apply_vec (state_of (traction_guarded p s)) = tF_apply_vec s"
      using a b unfolding keeps_binding_def traction_guarded_def
      by (auto split: option.splits)
  qed
qed

lemma keeps_binding_fetch_to: "keeps_binding (fetch_to data t c field xyz n i p)"
proof -
  have a: "keeps_binding (seq [iface (Fetch field q n), store t c p v])" for q v
    by (auto intro!: keeps_binding_seq keeps_binding_iface keeps_binding_store)
  show ?thesis unfolding keeps_binding_def
  proof
    fix s
    show "tF_apply_vec (state_of (fetch_to data t c field xyz n i p s)) = tF_apply_vec s"
      using a unfolding keeps_binding_def fetch_to_def by (auto split: option.splits)
  qed
qed

lemma keeps_binding_fetch_many_to: "keeps_binding (fetch_many_to data t c field xyz dofs n)"
  unfolding fetch_many_to_def
  by (auto intro!: keeps_binding_seq keeps_binding_iface keeps_binding_store_many)

text \<open>Two runs of statements that agree step by step while the binding is \<open>t\<close>.\<close>

lemma seq_agree:
  assumes "list_all2 (\<lambda>f g. keeps_binding f \<and> (\<forall>s. tF_apply_vec s = t \<longrightarrow> f s = g s)) fs gs"
    and "tF_apply_vec s = t"
  shows "seq fs s = seq gs s"
  using assms
proof (induction fs gs arbitrary: s rule: list_all2_induct)
  case Nil
  show ?case by simp
next
  case (Cons f fs g gs)
  from Cons.hyps(1) have "keeps_binding f" by blast
  then have "tF_apply_vec (state_of (f s)) = tF_apply_vec s"
    unfolding keeps_binding_def by blast
  with Cons.prems have k: "tF_apply_vec (state_of (f s)) = t" by simp
  from Cons.hyps(1) Cons.prems have fg: "f s = g s" by blast
  show ?case
  proof (cases "f s")
    case (Done s1)
    with k have "tF_apply_vec s1 = t" by simp
    from Cons.IH[OF this] Done fg show ?thesis by simp
  next
    case (Raised e s1)
    with fg have "g s = Raised e s1" by simp
    with Raised show ?thesis by simp
  qed
qed

lemma for_enumerate_agree:
  assumes "\<And>i p. keeps_binding (body i p)"
    and "\<And>i p s. tF_apply_vec s = t \<Longrightarrow> body i p s = body' i p s"
    and "tF_apply_vec s = t"
  shows "for_enumerate body xs s = for_enumerate body' xs s"
  unfolding for_enumerate_def
  by (rule seq_agree[where t = t, OF _ assms(3)])
    (simp add: list_all2_map1 list_all2_map2 list_all2_same split_beta assms(1,2))

lemma blend_alias:
  assumes "tF_apply_vec s = t"
  shows "blend (cfg\<lparr>iparallelFSICoupling := True, undRelxCpl := r\<rparr>) t p s =
         blend (cfg\<lparr>iparallelFSICoupling := False\<rparr>) t p s"
proof -
  have "seq [under_relax t r 0 p, under_relax t r 1 p, under_relax t r 2 p] s =
        seq [overwrite t 0 p, overwrite t 1 p, overwrite t 2 p] s"
    by (rule seq_agree[where t = t, OF _ assms])
      (use under_relax_alias in \<open>auto simp: keeps_binding_under_relax\<close>)
  then show ?thesis by (simp add: blend_def del: seq.simps)
qed

lemma fetch_per_dof_many_alias:
  assumes "tF_apply_vec s = t"
  shows "fetch_per_dof_many (cfg\<lparr>iparallelFSICoupling := True, undRelxCpl := r\<rparr>) data t xyz dofs n s =
         fetch_per_dof_many (cfg\<lparr>iparallelFSICoupling := False\<rparr>) data t xyz dofs n s"
  unfolding fetch_per_dof_many_def
proof (rule seq_agree[where t = t, OF _ assms], simp, intro conjI allI impI)
  show "keeps_binding (fetch_many_to data t 0 ''forceX'' xyz dofs n)"
    "keeps_binding (fetch_many_to data t (Suc 0) ''forceY'' xyz dofs n)"
    "keeps_binding (fetch_many_to data t 2 ''forceZ'' xyz dofs n)"
    by (rule keeps_binding_fetch_many_to)+
next
  show "keeps_binding (for_enumerate (\<lambda>i p. seq
          [blend (cfg\<lparr>iparallelFSICoupling := True, undRelxCpl := r\<rparr>) t p, traction_guarded p]) dofs)"
    by (auto intro!: keeps_binding_for_enumerate keeps_binding_seq keeps_binding_blend
        keeps_binding_traction_guarded)
next
  fix s' :: solver assume b: "tF_apply_vec s' = t"
  show "for_enumerate (\<lambda>i p. seq
          [blend (cfg\<lparr>iparallelFSICoupling := True, undRelxCpl := r\<rparr>) t p, traction_guarded p]) dofs s' =
        for_enumerate (\<lambda>i p. seq
          [blend (cfg\<lparr>iparallelFSICoupling := False\<rparr>) t p, traction_guarded p]) dofs s'"
  proof (rule for_enumerate_agree[where t = t, OF _ _ b])
    fix i p
    show "keeps_binding (seq [blend (cfg\<lparr>iparallelFSICoupling := True, undRelxCpl := r\<rparr>) t p,
            traction_guarded p])"
      by (auto intro!: keeps_binding_seq keeps_binding_blend keeps_binding_traction_guarded)
  next
    fix i p and u :: solver assume "tF_apply_vec u = t"
    then show "seq [blend (cfg\<lparr>iparallelFSICoupling := True, undRelxCpl := r\<rparr>) t p,
            traction_guarded p] u =
          seq [blend (cfg\<lparr>iparallelFSICoupling := False\<rparr>) t p, traction_guarded p] u"
      by (simp add: blend_alias)
  qed
qed

lemma fetch_per_dof_single_alias:
  assumes "tF_apply_vec s = t"
  shows "fetch_per_dof_single (cfg\<lparr>iparallelFSICoupling := True, undRelxCpl := r\<rparr>) data t xyz dofs n s =
         fetch_per_dof_single (cfg\<lparr>iparallelFSICoupling := False\<rparr>) data t xyz dofs n s"
  unfolding fetch_per_dof_single_def
proof (rule for_enumerate_agree[where t = t, OF _ _ assms])
  fix i p
  show "keeps_binding (seq [fetch_to data t 0 ''forceX'' xyz n i p, fetch_to data t 1 ''forceY'' xyz n i p,
          fetch_to data t 2 ''forceZ'' xyz n i p,
          blend (cfg\<lparr>iparallelFSICoupling := True, undRelxCpl := r\<rparr>) t p, traction_unguarded p])"
    by (auto intro!: keeps_binding_seq keeps_binding_blend keeps_binding_traction_unguarded
        keeps_binding_fetch_to)
next
  fix i p and u :: solver assume u: "tF_apply_vec u = t"
  show "seq [fetch_to data t 0 ''forceX'' xyz n i p, fetch_to data t 1 ''forceY'' xyz n i p,
          fetch_to data t 2 ''forceZ'' xyz n i p,
          blend (cfg\<lparr>iparallelFSICoupling := True, undRelxCpl := r\<rparr>) t p, traction_unguarded p] u =
        seq [fetch_to data t 0 ''forceX'' xyz n i p, fetch_to data t 1 ''forceY'' xyz n i p,
          fetch_to data t 2 ''forceZ'' xyz n i p,
          blend (cfg\<lparr>iparallelFSICoupling := False\<rparr>) t p, traction_unguarded p] u"
    by (rule seq_agree[where t = t, OF _ u])
      (auto simp: keeps_binding_fetch_to keeps_binding_blend keeps_binding_traction_unguarded
        blend_alias)
qed

text \<open>
  Right after a fetch has written its value through the second name, the under-relaxed
  update reads that value as the old one and changes nothing.
\<close>

lemma store_then_under_relax:
  assumes "store (tF_apply_vec s) c p (Fin v) s = Done s1"
  shows "under_relax (tF_apply_vec s) r c p s1 = Done s1"
proof -
  from assms have lt: "3 * p + c < length (arrays s (tF_apply_vec s))"
    and s1: "s1 = s\<lparr>arrays := (arrays s)(tF_apply_vec s :=
        (arrays s (tF_apply_vec s))[3 * p + c := Fin v])\<rparr>"
    by (auto simp: store_def split: if_splits)
  have "s1\<lparr>arrays := (arrays s1)(tF_apply_vec s1 :=
        (arrays s1 (tF_apply_vec s1))[3 * p + c := Fin v])\<rparr> = s1"
    by (simp add: s1)
  with lt show ?thesis
    by (simp add: under_relax_def load_def strided_def set_load_def store_def s1)
qed

lemma under_relax_after_fetch:
  "seq [fetch_to data (tF_apply_vec s) c field xyz n i p, under_relax (tF_apply_vec s) r c p] s =
   fetch_to data (tF_apply_vec s) c field xyz n i p s"
proof (cases "fetch_to data (tF_apply_vec s) c field xyz n i p s")
  case (Raised e s1)
  then show ?thesis by simp
next
  case (Done s1)
  then obtain q where q: "index xyz i = Some q"
    by (auto simp: fetch_to_def split: option.splits)
  let ?s0 = "s\<lparr>calls := calls s @ [Fetch field q n]\<rparr>"
  from Done q have "store (tF_apply_vec ?s0) c p (Fin (data field q n)) ?s0 = Done s1"
    by (simp add: fetch_to_def iface_def split: outcome.splits)
  from store_then_under_relax[OF this, of r]
  have "under_relax (tF_apply_vec s) r c p s1 = Done s1" by simp
  with Done show ?thesis by simp
qed

text \<open>
  Claim C3. \<open>temp_vec_function_temp\<close> and \<open>self.tF_apply_vec\<close> are one array, so the
  under-relaxed update reads as old value the value just fetched: for every relaxation
  factor \<open>r\<close> the increment \<open>(new - old) * r\<close> is zero, and the update after the fetch
  of a component changes nothing. Hence a fetch with the implicit/parallel-coupling
  flag set leaves the object exactly as the fetch of the same time index with the flag
  cleared does (the set flag lowers the time index by one, so the indices \<open>n + 1\<close> and
  \<open>n\<close> are compared), in the batched mode, in the one-call-per-point mode and in the
  resultant mode.
\<close>

theorem blend_is_overwrite_under_aliasing:
  "MUI_Fetch (cfg\<lparr>iparallelFSICoupling := True, undRelxCpl := r\<rparr>) lstsq data xyz dofs (n + 1) s =
   MUI_Fetch (cfg\<lparr>iparallelFSICoupling := False\<rparr>) lstsq data xyz dofs n s
   \<and> seq [fetch_to data (tF_apply_vec s) c field xyz m i p,
           under_relax (tF_apply_vec s) r c p] s =
       fetch_to data (tF_apply_vec s) c field xyz m i p s"
  by (simp add: MUI_Fetch_def Let_def fetch_iteration_def fetch_per_dof_many_alias
      fetch_per_dof_single_alias under_relax_after_fetch del: seq.simps)

section \<open>The fetch on concrete data\<close>

text \<open>
  Claim C2 asks for the applied load \<open>old + (new - old) * r\<close> after a fetch with the
  implicit/parallel-coupling flag set. On the worked input the old load is 0, the
  fetched force is 1, the area weight is 1 and \<open>r\<close> is 1/2: the load after the fetch is
  1, not 1/2.
\<close>

theorem under_relaxation_lost:
  "MUI_Fetch (example_config\<lparr>iparallelFSICoupling := True\<rparr>) (\<lambda>A b. (0, 0, 0))
     (\<lambda>field xyz n. 1) [(0, 0, 0)] [0] 1 example_solver =
   Done (example_solver\<lparr>
     arrays := (arrays example_solver)(0 := [Fin 1, Fin 1, Fin 1]),
     calls := [Fetch ''forceX'' (0, 0, 0) 0, Fetch ''forceY'' (0, 0, 0) 0,
               Fetch ''forceZ'' (0, 0, 0) 0]\<rparr>)
   \<and> Fin 1 \<noteq> fadd (Fin 0) (fmul (fsub (Fin 1) (Fin 0)) (undRelxCpl example_config))"
  by (simp add: fetch_eval_defs)

text \<open>
  The same loop run with a temporary array that is not the applied-load array gives the
  under-relaxed value 1/2.
\<close>

lemma under_relaxation_with_a_copy:
  "fetch_per_dof_single (example_config\<lparr>iparallelFSICoupling := True\<rparr>)
     (\<lambda>field xyz n. 1) 1 [(0, 0, 0)] [0] 0 example_solver =
   Done (example_solver\<lparr>
     arrays := (arrays example_solver)(1 := [Fin 1, Fin 1, Fin 1],
                                       0 := [Fin (1 / 2), Fin (1 / 2), Fin (1 / 2)]),
     calls := [Fetch ''forceX'' (0, 0, 0) 0, Fetch ''forceY'' (0, 0, 0) 0,
               Fetch ''forceZ'' (0, 0, 0) 0]\<rparr>)"
  by (simp add: fetch_eval_defs fun_upd_twist)

text \<open>
  Claim C4 asks for a zero applied load at a DOF whose area weight is zero, in every
  fetch mode. The one-call-per-point mode divides without the test for zero: with area
  weight 0 and fetched force 1 the load after the fetch is not finite.
\<close>

theorem zero_area_single_fetch:
  "MUI_Fetch example_config (\<lambda>A b. (0, 0, 0))
     (\<lambda>field xyz n. 1) [(0, 0, 0)] [0] 0 (example_solver\<lparr>areaf_vec := [0]\<rparr>) =
   Done (example_solver\<lparr>
     arrays := (arrays example_solver)(0 := [NonFin, NonFin, NonFin]),
     areaf_vec := [0],
     calls := [Fetch ''forceX'' (0, 0, 0) 0, Fetch ''forceY'' (0, 0, 0) 0,
               Fetch ''forceZ'' (0, 0, 0) 0]\<rparr>)"
  by (simp add: fetch_eval_defs)

text \<open>The batched mode, which has the test, gives zero on the same data.\<close>

lemma zero_area_batched_fetch:
  "MUI_Fetch (example_config\<lparr>iMUIFetchMany := True\<rparr>) (\<lambda>A b. (0, 0, 0))
     (\<lambda>field xyz n. 1) [(0, 0, 0)] [0] 0 (example_solver\<lparr>areaf_vec := [0]\<rparr>) =
   Done (example_solver\<lparr>
     arrays := (arrays example_solver)(0 := [Fin 0, Fin 0, Fin 0]),
     areaf_vec := [0],
     calls := [FetchMany ''forceX'' [(0, 0, 0)] 0, FetchMany ''forceY'' [(0, 0, 0)] 0,
               FetchMany ''forceZ'' [(0, 0, 0)] 0]\<rparr>)"
  by (simp add: fetch_eval_defs)

section \<open>Properties of the load redistribution\<close>

lemma vsum_vscale: "vsum (map (\<lambda>k. vscale k F) ks) = vscale (sum_list ks) F"
proof (induction ks)
  case Nil
  show ?case by (cases F) (simp add: vsum_def vscale_def)
next
  case (Cons k ks)
  then show ?case
    by (cases F) (simp add: vsum_def vscale_def vadd_def algebra_simps)
qed

lemma smallVal_pos: "0 < smallVal"
  by (simp add: smallVal_def)

lemma sum_inverse_pos:
  assumes "ds \<noteq> []" and "\<And>d. d \<in> set ds \<Longrightarrow> 0 < (d::real)"
  shows "0 < sum_list (map inverse ds)"
  using assms
proof (induction ds)
  case Nil
  then show ?case by simp
next
  case (Cons d ds)
  have "0 \<le> sum_list (map inverse ds)"
    by (rule sum_list_nonneg) (use Cons.prems(2) in \<open>auto simp: less_imp_le\<close>)
  moreover have "0 < inverse d" using Cons.prems(2) by simp
  ultimately have "0 < inverse d + sum_list (map inverse ds)" by (rule add_pos_nonneg[rotated])
  then show ?case by simp
qed

lemma weights_sum_to_one:
  fixes ds :: "real list"
  assumes "sum_list (map inverse ds) \<noteq> 0"
  shows "sum_list (map (\<lambda>d. inverse (sum_list (map inverse ds) * d)) ds) = 1"
proof -
  let ?T = "sum_list (map inverse ds)"
  have "sum_list (map (\<lambda>d. inverse (?T * d)) ds) = sum_list (map (\<lambda>d. inverse ?T * inverse d) ds)"
    by (simp add: inverse_mult_distrib)
  also have "\<dots> = inverse ?T * sum_list (map inverse ds)"
    by (simp add: sum_list_const_mult)
  also have "\<dots> = 1" using assms by simp
  finally show ?thesis .
qed

text \<open>
  The formula of \<open>ForceInterp\<close> in exact arithmetic. For a non-empty list of support
  points it gives one force for each point, the resultant scaled by a weight that is the
  inverse distance of the point over the sum of the inverse distances, and the forces
  sum, component by component, to the resultant; a single support point is included,
  and so are points at the centre of reaction, whose distance is raised to \<open>smallVal\<close>.
  This is a statement about the real numbers: in float64 the sum agrees with the
  resultant only up to rounding, and a coordinate difference whose square overflows
  gives an infinite distance, an inverse distance of zero and, for a single point, the
  weight \<open>0 * inf\<close>, a NaN.
\<close>

lemma ForceInterp_exact_arithmetic:
  assumes "SpprtLoc \<noteq> []"
  shows "length (ForceInterp F_in CofR SpprtLoc) = length SpprtLoc"
    and "ForceInterp F_in CofR SpprtLoc =
           map (\<lambda>p. vscale
                  (inverse (max (sqrt (norm2 (vsub p CofR))) smallVal) /
                   sum_list (map (\<lambda>q. inverse (max (sqrt (norm2 (vsub q CofR))) smallVal))
                     SpprtLoc))
                  F_in) SpprtLoc"
    and "vsum (ForceInterp F_in CofR SpprtLoc) = F_in"
proof -
  let ?ds = "map (\<lambda>l. max (sqrt (norm2 l)) smallVal) (map (\<lambda>p. vsub p CofR) SpprtLoc)"
  show "length (ForceInterp F_in CofR SpprtLoc) = length SpprtLoc"
    by (simp add: ForceInterp_def Let_def)
  show "ForceInterp F_in CofR SpprtLoc =
           map (\<lambda>p. vscale
                  (inverse (max (sqrt (norm2 (vsub p CofR))) smallVal) /
                   sum_list (map (\<lambda>q. inverse (max (sqrt (norm2 (vsub q CofR))) smallVal))
                     SpprtLoc))
                  F_in) SpprtLoc"
    by (simp add: ForceInterp_def Let_def comp_def inverse_mult_distrib divide_inverse
        mult.commute)
  have "0 < max x smallVal" for x :: real
    using smallVal_pos by (simp add: less_max_iff_disj)
  then have pos: "0 < d" if "d \<in> set ?ds" for d
    using that by auto
  have "?ds \<noteq> []" using assms by simp
  then have T: "sum_list (map inverse ?ds) \<noteq> 0"
    using sum_inverse_pos[of ?ds] pos by fastforce
  have "ForceInterp F_in CofR SpprtLoc =
        map (\<lambda>k. vscale k F_in) (map (\<lambda>d. inverse (sum_list (map inverse ?ds) * d)) ?ds)"
    by (simp add: ForceInterp_def Let_def comp_def)
  then have "vsum (ForceInterp F_in CofR SpprtLoc) =
        vscale (sum_list (map (\<lambda>d. inverse (sum_list (map inverse ?ds) * d)) ?ds)) F_in"
    by (simp only: vsum_vscale)
  also have "\<dots> = vscale 1 F_in"
    by (simp only: weights_sum_to_one[OF T])
  also have "\<dots> = F_in" by (cases F_in) (simp add: vscale_def)
  finally show "vsum (ForceInterp F_in CofR SpprtLoc) = F_in" .
qed

text \<open>A single support point at the centre of reaction receives the whole resultant.\<close>

lemma ForceInterp_single_point:
  "ForceInterp F_in CofR [CofR] = [F_in]"
  using smallVal_pos
  by (cases F_in; cases CofR)
     (simp add: ForceInterp_def Let_def vsub_def norm2_def dot_def vscale_def max_def)

lemma norm2_nonneg: "0 \<le> norm2 v"
  by (cases v) (simp add: norm2_def dot_def)

lemma norm2_zero_iff: "norm2 v \<le> 0 \<longleftrightarrow> v = (0, 0, 0)"
proof (cases v)
  case (fields x y z)
  have "x * x + y * y + z * z \<le> 0 \<longleftrightarrow> x = 0 \<and> y = 0 \<and> z = 0"
  proof
    assume a: "x * x + y * y + z * z \<le> 0"
    have "0 \<le> x * x" "0 \<le> y * y" "0 \<le> z * z" by simp_all
    with a have "x * x = 0" "y * y = 0" "z * z = 0" by linarith+
    then show "x = 0 \<and> y = 0 \<and> z = 0" by simp
  qed simp
  with fields show ?thesis by (simp add: norm2_def dot_def)
qed

lemma residual2_zero_rhs_at_zero: "residual2 A (0, 0, 0) (0, 0, 0) = 0"
  by (cases A) (auto simp: residual2_def mat_vec_def vsub_def norm2_def dot_def split: prod.splits)

lemma least_squares_zero_rhs: "least_squares A (0, 0, 0) x \<longleftrightarrow> x = (0, 0, 0)"
proof
  assume "least_squares A (0, 0, 0) x"
  then have "residual2 A (0, 0, 0) (0, 0, 0) \<le> residual2 A (0, 0, 0) x \<longrightarrow>
             norm2 x \<le> norm2 (0, 0, 0)"
    unfolding least_squares_def by blast
  moreover have "residual2 A (0, 0, 0) (0, 0, 0) \<le> residual2 A (0, 0, 0) x"
    by (simp add: residual2_zero_rhs_at_zero) (simp add: residual2_def norm2_nonneg)
  ultimately have "norm2 x \<le> norm2 (0, 0, 0)" by blast
  then have "norm2 x \<le> 0" by (simp add: norm2_def dot_def)
  then show "x = (0, 0, 0)" by (simp add: norm2_zero_iff)
next
  assume x: "x = (0, 0, 0)"
  have z: "norm2 (0, 0, 0) = 0" by (simp add: norm2_def dot_def)
  have "residual2 A (0, 0, 0) x \<le> residual2 A (0, 0, 0) y" for y
    unfolding x residual2_zero_rhs_at_zero by (simp add: residual2_def norm2_nonneg)
  moreover have "norm2 x \<le> norm2 y" for y
    unfolding x z by (rule norm2_nonneg)
  ultimately show "least_squares A (0, 0, 0) x"
    unfolding least_squares_def by blast
qed

text \<open>
  Claim C6. With moment \<open>(0, 0, 0)\<close> the right-hand side \<open>B\<close> is zero; a least-squares
  solution of least norm is then the zero vector, whatever the force, so the correction
  is zero and \<open>getCofR\<close> returns the previous centre of reaction.
\<close>

theorem getCofR_zero_moment:
  assumes "least_squares (getCofR_A F) (getCofR_B (0, 0, 0)) (lstsq (getCofR_A F) (getCofR_B (0, 0, 0)))"
  shows "lstsq (getCofR_A F) (getCofR_B (0, 0, 0)) = (0, 0, 0)
         \<and> getCofR lstsq F (0, 0, 0) CofR_old = CofR_old"
proof -
  have B: "getCofR_B (0, 0, 0) = (0, 0, 0)" by (simp add: getCofR_B_def)
  from assms have L: "lstsq (getCofR_A F) (0, 0, 0) = (0, 0, 0)"
    by (simp add: B least_squares_zero_rhs)
  then show ?thesis
    by (cases CofR_old) (simp add: getCofR_def B vadd_def)
qed

theorem getCofR_zero_moment_witness:
  "least_squares (getCofR_A (1, 2, 3)) (getCofR_B (0, 0, 0)) (0, 0, 0)
   \<and> getCofR (\<lambda>A b. (0, 0, 0)) (1, 2, 3) (0, 0, 0) (4, 5, 6) = (4, 5, 6)"
proof -
  have h: "least_squares (getCofR_A (1, 2, 3)) (getCofR_B (0, 0, 0)) (0, 0, 0)"
    by (simp add: getCofR_B_def least_squares_zero_rhs)
  from getCofR_zero_moment[of "(1, 2, 3)" "\<lambda>A b. (0, 0, 0)" "(4, 5, 6)", OF h] h
  show ?thesis by simp
qed

section \<open>Properties of the span announcement\<close>






























section \<open>The rigid-body push of a pure translation\<close>

lemma example_init_array:
  "init_array example_config = [(1, - 1 / 2, 0), (2, - 1 / 2, 0), (1, 1 / 2, 0), (2, 1 / 2, 0)]"
  by (simp add: init_array_def example_config_def)

lemma example_corners_new:
  "corners_new example_config example_displacement =
     [(1, - 1 / 2, 5 / 4), (2, - 1 / 2, 5 / 4), (1, 1 / 2, 5 / 4), (2, 1 / 2, 5 / 4)]"
  by (simp add: corners_new_def disp_array_def example_init_array example_displacement_def vadd_def)

lemma example_Trans: "Trans example_config example_displacement = (0, 0, 5 / 4)"
  by (simp add: Trans_def disp_array_def example_init_array example_displacement_def
      vsum_def vadd_def vscale_def)

lemma is_rotation_pitch: "is_rotation pitch_rotation"
  by (simp add: is_rotation_def pitch_rotation_def mat_mul_def mat_transpose_def mat_id_def
      det_def dot_def)

lemma example_loss_pitch:
  "align_loss pitch_rotation (init_array example_config)
     (corners_new example_config example_displacement) = 5 / 8"
  by (simp add: example_init_array example_corners_new align_loss_def pitch_rotation_def
      mat_vec_def dot_def vsub_def norm2_def)

lemma example_loss_identity:
  "align_loss mat_id (init_array example_config)
     (corners_new example_config example_displacement) = 25 / 8"
  by (simp add: example_init_array example_corners_new align_loss_def mat_id_def
      mat_vec_def dot_def vsub_def norm2_def)

lemma is_rotation_entries:
  assumes "is_rotation ((c11, c12, c13), (c21, c22, c23), (c31, c32, c33))"
  shows "c11 * c11 + c12 * c12 + c13 * c13 = 1"
    and "c21 * c21 + c22 * c22 + c23 * c23 = 1"
    and "c11 * c11 + c21 * c21 + c31 * c31 = 1"
    and "c12 * c12 + c22 * c22 + c32 * c32 = 1"
    and "c13 * c13 + c23 * c23 + c33 * c33 = 1"
    and "c11 * c12 + c21 * c22 + c31 * c32 = 0"
    and "c11 * c13 + c21 * c23 + c31 * c33 = 0"
    and "c12 * c13 + c22 * c23 + c32 * c33 = 0"
    and "c11 * c31 + c12 * c32 + c13 * c33 = 0"
    and "c11 * (c22 * c33 - c23 * c32) - c12 * (c21 * c33 - c23 * c31)
           + c13 * (c21 * c32 - c22 * c31) = 1"
  using assms
  by (simp_all add: is_rotation_def mat_mul_def mat_transpose_def mat_id_def det_def dot_def)

lemma rotation_keeps_norm:
  assumes "is_rotation C"
  shows "norm2 (mat_vec C v) = norm2 v"
proof -
  obtain c11 c12 c13 c21 c22 c23 c31 c32 c33 where
    C: "C = ((c11, c12, c13), (c21, c22, c23), (c31, c32, c33))"
    by (metis prod_cases3)
  obtain x y z where v: "v = (x, y, z)" by (metis prod_cases3)
  note e = is_rotation_entries[OF assms[unfolded C]]
  have "norm2 (mat_vec C v) =
          x * x * (c11 * c11 + c21 * c21 + c31 * c31)
        + y * y * (c12 * c12 + c22 * c22 + c32 * c32)
        + z * z * (c13 * c13 + c23 * c23 + c33 * c33)
        + 2 * x * y * (c11 * c12 + c21 * c22 + c31 * c32)
        + 2 * x * z * (c11 * c13 + c21 * c23 + c31 * c33)
        + 2 * y * z * (c12 * c13 + c22 * c23 + c32 * c33)"
    by (simp add: C v norm2_def mat_vec_def dot_def algebra_simps)
  also have "\<dots> = x * x + y * y + z * z"
    by (simp add: e)
  finally show ?thesis by (simp add: v norm2_def dot_def)
qed

lemma loss_term:
  "norm2 (vsub a (mat_vec C b)) = norm2 a - 2 * dot a (mat_vec C b) + norm2 (mat_vec C b)"
  by (cases a; cases "mat_vec C b") (simp add: norm2_def vsub_def dot_def algebra_simps)

lemma example_loss_of_rotation:
  assumes "is_rotation ((c11, c12, c13), (c21, c22, c23), (c31, c32, c33))"
  shows "align_loss ((c11, c12, c13), (c21, c22, c23), (c31, c32, c33))
           (init_array example_config) (corners_new example_config example_displacement)
         = 113 / 8 - (10 * c11 + 15 / 2 * c13 + c22)"
proof -
  let ?C = "((c11, c12, c13), (c21, c22, c23), (c31, c32, c33))"
  have n: "norm2 (mat_vec ?C b) = norm2 b" for b
    by (rule rotation_keeps_norm[OF assms])
  show ?thesis
    unfolding align_loss_def example_init_array example_corners_new
    by (simp add: loss_term n) (simp add: norm2_def dot_def mat_vec_def algebra_simps)
qed


lemma example_objective_bound:
  assumes "is_rotation ((c11, c12, c13), (c21, c22, c23), (c31, c32, c33))"
  shows "4 / 5 * c11 + 3 / 5 * c13 \<le> 1" and "c22 \<le> 1"
    and "1 - (4 / 5 * c11 + 3 / 5 * c13) =
           1 / 2 * ((4 / 5 - c11) * (4 / 5 - c11) + (3 / 5 - c13) * (3 / 5 - c13) + c12 * c12)"
proof -
  note e = is_rotation_entries[OF assms]
  show id: "1 - (4 / 5 * c11 + 3 / 5 * c13) =
           1 / 2 * ((4 / 5 - c11) * (4 / 5 - c11) + (3 / 5 - c13) * (3 / 5 - c13) + c12 * c12)"
    using e(1) by (simp add: algebra_simps)
  define q where "q = (4 / 5 - c11) * (4 / 5 - c11) + (3 / 5 - c13) * (3 / 5 - c13) + c12 * c12"
  have "0 \<le> q" unfolding q_def by (intro add_nonneg_nonneg) simp_all
  moreover have "1 - (4 / 5 * c11 + 3 / 5 * c13) = 1 / 2 * q" unfolding q_def by (rule id)
  ultimately show "4 / 5 * c11 + 3 / 5 * c13 \<le> 1" by linarith
  have "0 \<le> c21 * c21" "0 \<le> c23 * c23" by simp_all
  with e(2) have "c22 * c22 \<le> 1" by linarith
  then have "c22\<^sup>2 \<le> 1" by (simp add: power2_eq_square)
  then have "\<bar>c22\<bar> \<le> 1" by (simp add: abs_square_le_1)
  then show "c22 \<le> 1" by linarith
qed

text \<open>
  For the worked reference points, all displaced by the heave 5/4, the loss of
  \<open>align_vectors\<close> has exactly one minimiser among the rotations, and it is not the
  identity: it is the rotation about the y axis with cosine 4/5 and sine 3/5.
\<close>

lemma best_alignment_example:
  "best_alignment C (init_array example_config)
     (corners_new example_config example_displacement) \<longleftrightarrow> C = pitch_rotation"
proof
  assume b: "best_alignment C (init_array example_config)
     (corners_new example_config example_displacement)"
  obtain c11 c12 c13 c21 c22 c23 c31 c32 c33 where
    C: "C = ((c11, c12, c13), (c21, c22, c23), (c31, c32, c33))"
    by (metis prod_cases3)
  from b have rot: "is_rotation ((c11, c12, c13), (c21, c22, c23), (c31, c32, c33))"
    by (simp add: best_alignment_def C)
  note e = is_rotation_entries[OF rot]
  note o = example_objective_bound[OF rot]
  from b is_rotation_pitch have "align_loss C (init_array example_config)
     (corners_new example_config example_displacement) \<le> 5 / 8"
    unfolding best_alignment_def using example_loss_pitch by metis
  then have f: "27 / 2 \<le> 10 * c11 + 15 / 2 * c13 + c22"
    by (simp add: C example_loss_of_rotation[OF rot])
  from f o(1,2) have t: "4 / 5 * c11 + 3 / 5 * c13 = 1" and c22: "c22 = 1" by linarith+
  from o(3) t have "norm2 (4 / 5 - c11, 3 / 5 - c13, c12) \<le> 0"
    by (simp add: norm2_def dot_def)
  then have "(4 / 5 - c11, 3 / 5 - c13, c12) = (0, 0, 0)" by (simp only: norm2_zero_iff)
  then have c1: "c11 = 4 / 5" "c13 = 3 / 5" "c12 = 0" by simp_all
  from e(2) c22 have "norm2 (c21, c23, 0) \<le> 0" by (simp add: norm2_def dot_def)
  then have "(c21, c23, 0::real) = (0, 0, 0)" by (simp only: norm2_zero_iff)
  then have c2: "c21 = 0" "c23 = 0" by simp_all
  from e(4) c22 c1 have "norm2 (c32, 0, 0) \<le> 0" by (simp add: norm2_def dot_def)
  then have "(c32, 0::real, 0::real) = (0, 0, 0)" by (simp only: norm2_zero_iff)
  then have c32: "c32 = 0" by simp
  from e(9) c1 c32 have l1: "4 / 5 * c31 + 3 / 5 * c33 = 0" by simp
  from e(10) c1 c2 c22 c32 have l2: "4 / 5 * c33 - 3 / 5 * c31 = 1" by simp
  from l1 l2 have c3: "c31 = - 3 / 5" "c33 = 4 / 5" by linarith+
  show "C = pitch_rotation"
    by (simp add: C pitch_rotation_def c1 c2 c22 c32 c3)
next
  assume C: "C = pitch_rotation"
  have "align_loss pitch_rotation (init_array example_config)
          (corners_new example_config example_displacement)
        \<le> align_loss C' (init_array example_config)
          (corners_new example_config example_displacement)" if r: "is_rotation C'" for C'
  proof -
    obtain c11 c12 c13 c21 c22 c23 c31 c32 c33 where
      C': "C' = ((c11, c12, c13), (c21, c22, c23), (c31, c32, c33))"
      by (metis prod_cases3)
    from r have rot: "is_rotation ((c11, c12, c13), (c21, c22, c23), (c31, c32, c33))"
      by (simp add: C')
    note o = example_objective_bound[OF rot]
    from o(1,2) have "10 * c11 + 15 / 2 * c13 + c22 \<le> 27 / 2" by linarith
    then show ?thesis
      by (simp add: C' example_loss_of_rotation[OF rot] example_loss_pitch)
  qed
  with is_rotation_pitch show "best_alignment C (init_array example_config)
     (corners_new example_config example_displacement)"
    by (simp add: best_alignment_def C)
qed


lemma from_euler_zero: "from_euler (0, 0, 0) = mat_id"
  by (simp add: from_euler_def mat_mul_def mat_transpose_def mat_id_def dot_def)

lemma pitch_rotation_not_identity: "pitch_rotation \<noteq> mat_id"
  by (simp add: pitch_rotation_def mat_id_def)

lemma pitch_rotation_times_identity: "mat_mul pitch_rotation mat_id = pitch_rotation"
  by (simp add: pitch_rotation_def mat_mul_def mat_transpose_def mat_id_def dot_def)

lemma from_euler_pitch: "from_euler (0, arctan (3 / 4), 0) = pitch_rotation"
proof -
  have s: "sqrt (1 + (3 / 4)\<^sup>2) = (5 / 4 :: real)"
    by (rule real_sqrt_unique) (simp_all add: power2_eq_square)
  have c: "cos (arctan (3 / 4 :: real)) = 4 / 5"
    by (simp only: cos_arctan s) simp
  have n: "sin (arctan (3 / 4 :: real)) = 3 / 5"
    by (simp only: sin_arctan s) simp
  show ?thesis
    by (simp add: from_euler_def mat_mul_def mat_transpose_def dot_def c n pitch_rotation_def)
qed

text \<open>
  Claim C7 asks for roll, pitch and yaw 0 when the four reference points are displaced
  by one translation vector. On the worked input, with any \<open>align_vectors\<close> that returns
  a minimiser of its documented loss and any \<open>as_euler\<close> that returns angles of the
  rotation it is given, the mean displacement is the translation, but the Euler angles
  are those of the rotation about the y axis above and are not all zero; the push
  negates them.
\<close>

theorem rigid_translation_pushes_rotation:
  assumes "best_alignment
             (align_vectors lib (init_array example_config)
                (corners_new example_config example_displacement))
             (init_array example_config) (corners_new example_config example_displacement)"
    and "from_euler (as_euler lib pitch_rotation) = pitch_rotation"
  shows "Trans example_config example_displacement = (0, 0, 5 / 4)
         \<and> from_euler (euler_angles lib example_config example_displacement) = pitch_rotation
         \<and> euler_angles lib example_config example_displacement \<noteq> (0, 0, 0)"
proof -
  from assms(1) have a: "align_vectors lib (init_array example_config)
      (corners_new example_config example_displacement) = pitch_rotation"
    by (simp only: best_alignment_example)
  then have e: "euler_angles lib example_config example_displacement = as_euler lib pitch_rotation"
    by (simp add: euler_angles_def pitch_rotation_times_identity)
  with assms(2) have f: "from_euler (euler_angles lib example_config example_displacement) =
      pitch_rotation" by simp
  have "euler_angles lib example_config example_displacement \<noteq> (0, 0, 0)"
  proof
    assume "euler_angles lib example_config example_displacement = (0, 0, 0)"
    with f have "from_euler (0, 0, 0) = pitch_rotation" by simp
    with from_euler_zero pitch_rotation_not_identity show False by simp
  qed
  with f example_Trans show ?thesis by simp
qed

theorem rigid_translation_pushes_rotation_witness:
  "euler_angles \<lparr>align_vectors = (\<lambda>a b. pitch_rotation), as_euler = (\<lambda>C. (0, arctan (3 / 4), 0))\<rparr>
     example_config example_displacement \<noteq> (0, 0, 0)
   \<and> Trans example_config example_displacement = (0, 0, 5 / 4)"
proof -
  let ?lib = "\<lparr>align_vectors = (\<lambda>a b. pitch_rotation), as_euler = (\<lambda>C. (0, arctan (3 / 4), 0))\<rparr>"
  have 1: "best_alignment
             (align_vectors ?lib (init_array example_config)
                (corners_new example_config example_displacement))
             (init_array example_config) (corners_new example_config example_displacement)"
    by (simp add: best_alignment_example)
  have 2: "from_euler (as_euler ?lib pitch_rotation) = pitch_rotation"
    by (simp add: from_euler_pitch)
  from rigid_translation_pushes_rotation[OF 1 2] show ?thesis by simp
qed

text \<open>The calls of the rigid-body push on the worked input: a pitch of \<open>- arctan (3/4)\<close>.\<close>

lemma example_rigid_push:
  "MUI_Push (example_config\<lparr>iMUIPushMode := 1\<rparr>)
     \<lparr>align_vectors = (\<lambda>a b. pitch_rotation), as_euler = (\<lambda>C. (0, arctan (3 / 4), 0))\<rparr>
     [] [] example_displacement 1 example_solver =
   Done (example_solver\<lparr>calls :=
     [Push ''dispX'' (0, 0, 0) 0, Push ''dispY'' (0, 0, 0) 0, Push ''dispZ'' (0, 0, 0) (5 / 4),
      Push ''angleX'' (0, 0, 0) 0, Push ''angleY'' (0, 0, 0) (- arctan (3 / 4)),
      Push ''angleZ'' (0, 0, 0) 0, Commit 1]\<rparr>)"
proof -
  have T: "Trans (example_config\<lparr>iMUIPushMode := 1\<rparr>) example_displacement = (0, 0, 5 / 4)"
    using example_Trans by (simp add: Trans_def disp_array_def init_array_def)
  have k: "forgetTStepsMUI example_config = 2" by (simp add: example_config_def)
  show ?thesis
    by (simp add: MUI_Push_def push_rigid_body_def T k euler_angles_def iface_def forget_old_def
        origin_def example_solver_def)
qed

section \<open>Zero area weights in the modes that test for them\<close>

lemma only_dof_set_load:
  assumes "c < 3"
  shows "only_dof q (set_load c q v)"
  unfolding only_dof_def
proof (intro allI impI)
  fix s s1 assume a: "set_load c q v s = Done s1"
  then have s1: "s1 = s\<lparr>arrays := (arrays s)(tF_apply_vec s :=
      (arrays s (tF_apply_vec s))[3 * q + c := v])\<rparr>"
    by (auto simp: set_load_def store_def split: if_splits)
  have "load (tF_apply_vec s1) c' p s1 = load (tF_apply_vec s) c' p s"
    if "p \<noteq> q" "c' < 3" for p c'
  proof -
    from that assms have "3 * p + c' \<noteq> 3 * q + c" by arith
    then show ?thesis by (simp add: s1 load_def strided_def)
  qed
  then show "tF_apply_vec s1 = tF_apply_vec s \<and> areaf_vec s1 = areaf_vec s \<and>
        (\<forall>p c. p \<noteq> q \<longrightarrow> c < 3 \<longrightarrow> load (tF_apply_vec s1) c p s1 = load (tF_apply_vec s) c p s)"
    by (simp add: s1)
qed

lemma only_dof_seq:
  assumes "\<And>f. f \<in> set fs \<Longrightarrow> only_dof q f"
  shows "only_dof q (seq fs)"
  using assms
proof (induction fs)
  case Nil
  show ?case by (simp add: only_dof_def)
next
  case (Cons f fs)
  have f: "only_dof q f" and r: "only_dof q (seq fs)" using Cons by auto
  show ?case unfolding only_dof_def
  proof (intro allI impI)
    fix s s1 assume "seq (f # fs) s = Done s1"
    then obtain s0 where a: "f s = Done s0" and b: "seq fs s0 = Done s1"
      by (auto split: outcome.splits)
    from f a have 1: "tF_apply_vec s0 = tF_apply_vec s" "areaf_vec s0 = areaf_vec s"
      "\<And>p c. p \<noteq> q \<Longrightarrow> c < 3 \<Longrightarrow> load (tF_apply_vec s0) c p s0 = load (tF_apply_vec s) c p s"
      unfolding only_dof_def by blast+
    from r b have 2: "tF_apply_vec s1 = tF_apply_vec s0" "areaf_vec s1 = areaf_vec s0"
      "\<And>p c. p \<noteq> q \<Longrightarrow> c < 3 \<Longrightarrow> load (tF_apply_vec s1) c p s1 = load (tF_apply_vec s0) c p s0"
      unfolding only_dof_def by blast+
    show "tF_apply_vec s1 = tF_apply_vec s \<and> areaf_vec s1 = areaf_vec s \<and>
        (\<forall>p c. p \<noteq> q \<longrightarrow> c < 3 \<longrightarrow> load (tF_apply_vec s1) c p s1 = load (tF_apply_vec s) c p s)"
      using 1 2 by simp
  qed
qed

lemma only_dof_cases:
  assumes "\<And>s s1. f s = Done s1 \<Longrightarrow> \<exists>g. only_dof q g \<and> g s = Done s1"
  shows "only_dof q f"
  unfolding only_dof_def
proof (intro allI impI)
  fix s s1 assume "f s = Done s1"
  from assms[OF this] obtain g where "only_dof q g" "g s = Done s1" by blast
  then show "tF_apply_vec s1 = tF_apply_vec s \<and> areaf_vec s1 = areaf_vec s \<and>
        (\<forall>p c. p \<noteq> q \<longrightarrow> c < 3 \<longrightarrow> load (tF_apply_vec s1) c p s1 = load (tF_apply_vec s) c p s)"
    unfolding only_dof_def by blast
qed

lemma only_dof_under_relax: "c < 3 \<Longrightarrow> only_dof q (under_relax t r c q)"
  by (rule only_dof_cases)
     (auto simp: under_relax_def split: option.splits intro!: only_dof_set_load exI)

lemma only_dof_overwrite: "c < 3 \<Longrightarrow> only_dof q (overwrite t c q)"
  by (rule only_dof_cases)
     (auto simp: overwrite_def split: option.splits intro!: only_dof_set_load exI)

lemma only_dof_divide: "c < 3 \<Longrightarrow> only_dof q (divide_by_area c q)"
  by (rule only_dof_cases)
     (auto simp: divide_by_area_def split: option.splits intro!: only_dof_set_load exI)

lemma only_dof_blend: "only_dof q (blend cfg t q)"
  unfolding blend_def
  by (auto intro!: only_dof_seq only_dof_under_relax only_dof_overwrite)

lemma only_dof_traction_guarded: "only_dof q (traction_guarded q)"
proof (rule only_dof_cases)
  fix s s1 assume a: "traction_guarded q s = Done s1"
  have z: "only_dof q (seq [set_load 0 q (Fin 0), set_load 1 q (Fin 0), set_load 2 q (Fin 0)])"
    by (auto intro!: only_dof_seq only_dof_set_load)
  have d: "only_dof q (seq [divide_by_area 0 q, divide_by_area 1 q, divide_by_area 2 q])"
    by (auto intro!: only_dof_seq only_dof_divide)
  from a z d show "\<exists>g. only_dof q g \<and> g s = Done s1"
    unfolding traction_guarded_def by (auto split: option.splits if_splits)
qed


lemma set_load_reads_back:
  assumes "set_load c p v s = Done s1"
  shows "load (tF_apply_vec s1) c p s1 = Some v"
    and "c' \<noteq> c \<Longrightarrow> load (tF_apply_vec s1) c' p s1 = load (tF_apply_vec s) c' p s"
  using assms
  by (auto simp: set_load_def store_def load_def strided_def split: if_splits)

lemma traction_guarded_zero:
  assumes "traction_guarded p s = Done s1" and "index (areaf_vec s) p = Some 0"
  shows "zero_load p s1"
proof -
  from assms obtain sa sb where
    a: "set_load 0 p (Fin 0) s = Done sa" and b: "set_load 1 p (Fin 0) sa = Done sb"
    and c: "set_load 2 p (Fin 0) sb = Done s1"
    by (auto simp: traction_guarded_def split: outcome.splits)
  from set_load_reads_back[OF a] have 0: "load (tF_apply_vec sa) 0 p sa = Some (Fin 0)" by simp
  from set_load_reads_back[OF b] 0 have 1: "load (tF_apply_vec sb) 0 p sb = Some (Fin 0)"
    "load (tF_apply_vec sb) 1 p sb = Some (Fin 0)" by simp_all
  from set_load_reads_back[OF c] 1 show ?thesis by (simp add: zero_load_def)
qed

text \<open>A loop whose rounds for other DOFs leave DOF \<open>p\<close> alone ends as its rounds for \<open>p\<close> end.\<close>

lemma seq_last_round:
  assumes "seq (map (\<lambda>(i, q). body i q) ips) s = Done s'"
    and "\<exists>i. (i, p) \<in> set ips"
    and "areaf_vec s = A"
    and "\<And>i q. only_dof q (body i q)"
    and "\<And>i s s1. body i p s = Done s1 \<Longrightarrow> areaf_vec s = A \<Longrightarrow> zero_load p s1"
  shows "zero_load p s'"
  using assms(1,2,3)
proof (induction ips arbitrary: s)
  case Nil
  then show ?case by simp
next
  case (Cons iq ips)
  obtain i q where iq: "iq = (i, q)" by (cases iq)
  from Cons.prems(1) iq obtain s0 where
    a: "body i q s = Done s0" and b: "seq (map (\<lambda>(i, q). body i q) ips) s0 = Done s'"
    by (auto split: outcome.splits)
  from assms(4)[of q i] a have f: "tF_apply_vec s0 = tF_apply_vec s" "areaf_vec s0 = areaf_vec s"
    "\<And>p c. p \<noteq> q \<Longrightarrow> c < 3 \<Longrightarrow> load (tF_apply_vec s0) c p s0 = load (tF_apply_vec s) c p s"
    unfolding only_dof_def by blast+
  have A0: "areaf_vec s0 = A" using f(2) Cons.prems(3) by simp
  show ?case
  proof (cases "\<exists>j. (j, p) \<in> set ips")
    case True
    from Cons.IH[OF b True A0] show ?thesis .
  next
    case False
    with Cons.prems(2) iq have qp: "q = p" by auto
    from assms(5)[of i s s0] a qp Cons.prems(3) have z: "zero_load p s0" by simp
    have "only_dof q' (body j q')" for j q' by (rule assms(4))
    have keep: "zero_load p s'" if "seq (map (\<lambda>(i, q). body i q) jps) u = Done s'"
      "\<not> (\<exists>j. (j, p) \<in> set jps)" "zero_load p u" for jps u
      using that
    proof (induction jps arbitrary: u)
      case Nil
      then show ?case by simp
    next
      case (Cons jq jps)
      obtain j q' where jq: "jq = (j, q')" by (cases jq)
      from Cons.prems(1) jq obtain u0 where
        a': "body j q' u = Done u0" and b': "seq (map (\<lambda>(i, q). body i q) jps) u0 = Done s'"
        by (auto split: outcome.splits)
      from Cons.prems(2) jq have ne: "p \<noteq> q'" by auto
      from assms(4)[of q' j] a' have "tF_apply_vec u0 = tF_apply_vec u"
        "\<And>p c. p \<noteq> q' \<Longrightarrow> c < 3 \<Longrightarrow> load (tF_apply_vec u0) c p u0 = load (tF_apply_vec u) c p u"
        unfolding only_dof_def by blast+
      with ne Cons.prems(3) have "zero_load p u0" by (simp add: zero_load_def)
      from Cons.IH[OF b' _ this] Cons.prems(2) show ?case by auto
    qed
    from keep[OF b False z] show ?thesis .
  qed
qed

lemma for_enumerate_last_round:
  assumes "for_enumerate body dofs s = Done s'"
    and "p \<in> set dofs"
    and "areaf_vec s = A"
    and "\<And>i q. only_dof q (body i q)"
    and "\<And>i s s1. body i p s = Done s1 \<Longrightarrow> areaf_vec s = A \<Longrightarrow> zero_load p s1"
  shows "zero_load p s'"
proof -
  have "length [0..<0 + length dofs] = length dofs" by simp
  with assms(2) obtain i where "(i, p) \<in> set (zip [0..<0 + length dofs] dofs)"
    by (metis in_set_impl_in_set_zip2)
  then have "\<exists>i. (i, p) \<in> set (enumerate 0 dofs)" by (auto simp only: enumerate_eq_zip)
  from seq_last_round[OF assms(1)[unfolded for_enumerate_def] this assms(3) assms(4) assms(5)]
  show ?thesis .
qed


lemma only_dof_areaf: "only_dof q f \<Longrightarrow> f s = Done s1 \<Longrightarrow> areaf_vec s1 = areaf_vec s"
  unfolding only_dof_def by blast

lemma only_dof_apply_resultant: "only_dof q (apply_resultant F_out i q)"
proof (rule only_dof_cases)
  fix s s1 assume a: "apply_resultant F_out i q s = Done s1"
  have "only_dof q (seq [set_load 0 q (Fin fx), set_load 1 q (Fin fy), set_load 2 q (Fin fz),
          traction_guarded q])" for fx fy fz
    by (auto intro!: only_dof_seq only_dof_set_load only_dof_traction_guarded)
  with a show "\<exists>g. only_dof q g \<and> g s = Done s1"
    unfolding apply_resultant_def
    by (auto simp del: seq.simps split: option.splits prod.splits)
qed

lemma apply_resultant_zero:
  assumes "apply_resultant F_out i p s = Done s1" and "index (areaf_vec s) p = Some 0"
  shows "zero_load p s1"
proof -
  from assms(1) obtain fx fy fz sa sb s0 where
    a: "set_load 0 p (Fin fx) s = Done sa" "set_load 1 p (Fin fy) sa = Done sb"
       "set_load 2 p (Fin fz) sb = Done s0"
    and b: "traction_guarded p s0 = Done s1"
    by (auto simp: apply_resultant_def split: option.splits prod.splits outcome.splits)
  have "areaf_vec sa = areaf_vec s" "areaf_vec sb = areaf_vec sa" "areaf_vec s0 = areaf_vec sb"
    using a by (auto simp: set_load_def store_def split: if_splits)
  with assms(2) have "index (areaf_vec s0) p = Some 0" by simp
  with b show ?thesis by (rule traction_guarded_zero)
qed

lemma blend_then_traction_zero:
  assumes "seq [blend cfg t p, traction_guarded p] s = Done s1"
    and "index (areaf_vec s) p = Some 0"
  shows "zero_load p s1"
proof -
  from assms(1) obtain s0 where a: "blend cfg t p s = Done s0" and b: "traction_guarded p s0 = Done s1"
    by (auto split: outcome.splits)
  from only_dof_areaf[OF only_dof_blend a] assms(2) have "index (areaf_vec s0) p = Some 0" by simp
  with b show ?thesis by (rule traction_guarded_zero)
qed

lemma seq_keeps_areaf:
  assumes "seq fs s = Done s1"
    and "\<And>f u u1. f \<in> set fs \<Longrightarrow> f u = Done u1 \<Longrightarrow> areaf_vec u1 = areaf_vec u"
  shows "areaf_vec s1 = areaf_vec s"
  using assms
proof (induction fs arbitrary: s)
  case Nil
  then show ?case by simp
next
  case (Cons f fs)
  from Cons.prems(1) obtain s0 where a: "f s = Done s0" and b: "seq fs s0 = Done s1"
    by (auto split: outcome.splits)
  have "areaf_vec s0 = areaf_vec s" using Cons.prems(2)[of f s s0] a by simp
  moreover have "areaf_vec s1 = areaf_vec s0"
  proof (rule Cons.IH[OF b])
    fix g u u1 assume "g \<in> set fs" "g u = Done u1"
    then show "areaf_vec u1 = areaf_vec u" using Cons.prems(2)[of g u u1] by simp
  qed
  ultimately show ?case by simp
qed

lemma fetch_many_to_areaf:
  "fetch_many_to data t c field xyz dofs n s = Done s1 \<Longrightarrow> areaf_vec s1 = areaf_vec s"
  by (auto simp: fetch_many_to_def iface_def store_many_def split: outcome.splits if_splits)

lemma fetch_resultant_zero:
  assumes "fetch_resultant lstsq data xyz dofs n s = Done s'"
    and "p \<in> set dofs" and "index (areaf_vec s) p = Some 0"
  shows "zero_load p s'"
proof -
  from assms(1) obtain F_out s0 where
    a: "seq (map (\<lambda>field. iface (Fetch field origin n)) resultant_fields) s = Done s0"
    and b: "for_enumerate (apply_resultant F_out) dofs s0 = Done s'"
    unfolding fetch_resultant_def Let_def by (auto split: outcome.splits)
  have "areaf_vec s0 = areaf_vec s"
    by (rule seq_keeps_areaf[OF a]) (auto simp: iface_def)
  with assms(3) have z: "index (areaf_vec s0) p = Some 0" by simp
  show ?thesis
  proof (rule for_enumerate_last_round[OF b assms(2) refl])
    show "only_dof q (apply_resultant F_out i q)" for i q by (rule only_dof_apply_resultant)
  next
    fix i u u1 assume "apply_resultant F_out i p u = Done u1" "areaf_vec u = areaf_vec s0"
    with z show "zero_load p u1" using apply_resultant_zero[of F_out i p u u1] by simp
  qed
qed

lemma fetch_per_dof_many_zero:
  assumes "fetch_per_dof_many cfg data t xyz dofs n s = Done s'"
    and "p \<in> set dofs" and "index (areaf_vec s) p = Some 0"
  shows "zero_load p s'"
proof -
  from assms(1) obtain s1 s2 s3 where
    1: "fetch_many_to data t 0 ''forceX'' xyz dofs n s = Done s1"
    and 2: "fetch_many_to data t 1 ''forceY'' xyz dofs n s1 = Done s2"
    and 3: "fetch_many_to data t 2 ''forceZ'' xyz dofs n s2 = Done s3"
    and b: "for_enumerate (\<lambda>i p. seq [blend cfg t p, traction_guarded p]) dofs s3 = Done s'"
    unfolding fetch_per_dof_many_def by (auto split: outcome.splits)
  from fetch_many_to_areaf[OF 1] fetch_many_to_areaf[OF 2] fetch_many_to_areaf[OF 3] assms(3)
  have z: "index (areaf_vec s3) p = Some 0" by simp
  show ?thesis
  proof (rule for_enumerate_last_round[OF b assms(2) refl])
    show "only_dof q (seq [blend cfg t q, traction_guarded q])" for i q
      by (auto intro!: only_dof_seq only_dof_blend only_dof_traction_guarded)
  next
    fix i u u1 assume "seq [blend cfg t p, traction_guarded p] u = Done u1"
      "areaf_vec u = areaf_vec s3"
    with z show "zero_load p u1" using blend_then_traction_zero[of cfg t p u u1] by simp
  qed
qed

text \<open>
  In the resultant mode and in the batched per-DOF mode, a fetch that returns leaves a
  zero applied load at every fetched DOF whose area weight is zero, whatever was
  fetched.
\<close>

lemma zero_area_guarded_modes:
  assumes "MUI_Fetch cfg lstsq data xyz dofs n s = Done s'"
    and "iMUIFetchMode cfg = 1 \<or> iMUIFetchMany cfg"
    and "0 \<le> fetch_iteration cfg n"
    and "p \<in> set dofs"
    and "index (areaf_vec s) p = Some 0"
  shows "zero_load p s'"
proof (cases "iMUIFetchMode cfg = 1")
  case True
  with assms(1,3) have "fetch_resultant lstsq data xyz dofs (fetch_iteration cfg n) s = Done s'"
    by (simp add: MUI_Fetch_def Let_def)
  then show ?thesis using assms(4,5) by (rule fetch_resultant_zero)
next
  case False
  with assms(1,2,3) have "fetch_per_dof_many cfg data (tF_apply_vec s) xyz dofs
      (fetch_iteration cfg n) s = Done s'"
    by (simp add: MUI_Fetch_def Let_def)
  then show ?thesis using assms(4,5) by (rule fetch_per_dof_many_zero)
qed

lemma zero_area_guarded_modes_example:
  "zero_load 0 (example_solver\<lparr>
     arrays := (arrays example_solver)(0 := [Fin 0, Fin 0, Fin 0]),
     areaf_vec := [0],
     calls := [FetchMany ''forceX'' [(0, 0, 0)] 0, FetchMany ''forceY'' [(0, 0, 0)] 0,
               FetchMany ''forceZ'' [(0, 0, 0)] 0]\<rparr>)"
proof -
  have "iMUIFetchMode (example_config\<lparr>iMUIFetchMany := True\<rparr>) = 1 \<or>
        iMUIFetchMany (example_config\<lparr>iMUIFetchMany := True\<rparr>)" by simp
  moreover have "0 \<le> fetch_iteration (example_config\<lparr>iMUIFetchMany := True\<rparr>) 0"
    by (simp add: fetch_iteration_def example_config_def)
  moreover have "(0::nat) \<in> set [0]" by simp
  moreover have "index (areaf_vec (example_solver\<lparr>areaf_vec := [0]\<rparr>)) 0 = Some 0"
    by (simp add: index_def)
  ultimately show ?thesis
    by (rule zero_area_guarded_modes[OF zero_area_batched_fetch])
qed

end
